theory Spec2Isabelle
  imports Main
begin

section \<open>Bytes, streams and the C library the program calls\<close>

text \<open>
  \<^verbatim>\<open>watch.c\<close> reads the child's output from a \<^verbatim>\<open>FILE *\<close> with \<^verbatim>\<open>getc\<close> and pushes bytes back
  with \<^verbatim>\<open>ungetc\<close>. A stream is the list of bytes still to be read; a byte is a \<open>char\<close>.
  \<^verbatim>\<open>getc\<close> returns an \<^verbatim>\<open>int\<close>: the byte as an unsigned value, or \<^verbatim>\<open>EOF\<close>. The program stores
  bytes in plain \<^verbatim>\<open>char\<close> buffers; on the platforms of this port (Mac OS X on x86 and
  PowerPC, built with gcc) plain \<^verbatim>\<open>char\<close> is signed, which \<open>schar\<close> reads.
  \<^verbatim>\<open>ungetc\<close> pushes \<^verbatim>\<open>(unsigned char) c\<close> and does nothing for \<^verbatim>\<open>EOF\<close>; any number of bytes can
  be pushed back, as in the C library of the platform.
\<close>

definition EOF :: int where
  "EOF = -1"

definition WEOF :: int where
  "WEOF = -1"

definition uchar :: "char \<Rightarrow> int" where
  "uchar b = of_char b"

definition schar :: "char \<Rightarrow> int" where
  "schar b = (if uchar b < 128 then uchar b else uchar b - 256)"

definition to_char :: "int \<Rightarrow> char" where
  "to_char v = char_of v"

fun getc :: "string \<Rightarrow> int \<times> string" where
  "getc [] = (EOF, [])"
| "getc (b # s) = (uchar b, s)"

definition ungetc :: "int \<Rightarrow> string \<Rightarrow> string" where
  "ungetc c s = (if c = EOF then s else to_char c # s)"

text \<open>
  The locale-dependent functions of the C library are parameters of the model:
  \<open>mbtowc lc buf\<close> is \<^verbatim>\<open>mbtowc(&rval, buf, n)\<close> on the \<open>n = length buf\<close> buffered bytes, from
  the initial shift state (the program resets it before every call); it gives the return
  value and the wide character stored. \<open>wcwidth\<close> and \<open>isprint\<close> are the functions of
  these names.

  One more parameter is not a function of the library but of the memory of the process:
  \<open>beyond_buf lc buf s\<close> are the bytes that lie behind the array \<^verbatim>\<open>buf\<close> of \<^verbatim>\<open>process_ansi\<close>
  when the array is full and holds \<open>buf\<close> and the input still to be read is \<open>s\<close>. The program
  hands the full array to \<^verbatim>\<open>strtol\<close> without a terminating NUL, and \<^verbatim>\<open>strtol\<close> reads on into
  these bytes when all of the array could be part of a number. (Every call of
  \<^verbatim>\<open>process_ansi\<close> in a render finds less input than the one before, so the parameter can give
  every call its own bytes.)
\<close>

record libc =
  mbtowc :: "string \<Rightarrow> int \<times> int"
  wcwidth :: "int \<Rightarrow> int"
  isprint :: "int \<Rightarrow> bool"
  beyond_buf :: "string \<Rightarrow> string \<Rightarrow> string"

subsection \<open>A concrete platform: a UTF-8 locale\<close>

text \<open>
  To run the model on concrete inputs the parameters are instantiated with a UTF-8 locale
  restricted to the Basic Multilingual Plane: \<open>utf8_mbtowc\<close> decodes one, two and three
  byte sequences (\<open>0\<close> for the NUL byte, \<open>-1\<close> for an invalid or incomplete sequence),
  \<open>utf8_wcwidth\<close> gives \<open>-1\<close> for control characters and \<^verbatim>\<open>WEOF\<close>, \<open>0\<close> for NUL and the
  combining diacritical marks, \<open>2\<close> for the East Asian wide blocks and \<open>1\<close> otherwise, and
  \<open>utf8_isprint\<close> is the ASCII \<^verbatim>\<open>isprint\<close>. Behind the array of \<^verbatim>\<open>process_ansi\<close> lies a NUL byte.
\<close>

definition utf8_cont :: "char \<Rightarrow> bool" where
  "utf8_cont b = (128 \<le> uchar b \<and> uchar b < 192)"

fun utf8_mbtowc :: "string \<Rightarrow> int \<times> int" where
  "utf8_mbtowc [] = (-1, 0)"
| "utf8_mbtowc (b0 # bs) =
     (let u = uchar b0 in
      if u = 0 then (0, 0)
      else if u < 128 then (1, u)
      else if 194 \<le> u \<and> u < 224 then
        (case bs of
           b1 # _ \<Rightarrow> if utf8_cont b1 then (2, (u - 192) * 64 + (uchar b1 - 128)) else (-1, 0)
         | [] \<Rightarrow> (-1, 0))
      else if 224 \<le> u \<and> u < 240 then
        (case bs of
           b1 # b2 # _ \<Rightarrow>
             if utf8_cont b1 \<and> utf8_cont b2 \<and> (u \<noteq> 224 \<or> 160 \<le> uchar b1)
             then (3, ((u - 224) * 64 + (uchar b1 - 128)) * 64 + (uchar b2 - 128))
             else (-1, 0)
         | _ \<Rightarrow> (-1, 0))
      else (-1, 0))"

definition utf8_wcwidth :: "int \<Rightarrow> int" where
  "utf8_wcwidth c =
     (if c = 0 then 0
      else if c < 32 \<or> (127 \<le> c \<and> c < 160) then -1
      else if 768 \<le> c \<and> c \<le> 879 then 0
      else if (4352 \<le> c \<and> c \<le> 4447) \<or> (11904 \<le> c \<and> c \<le> 42191) \<or>
              (44032 \<le> c \<and> c \<le> 55203) \<or> (63744 \<le> c \<and> c \<le> 64255) \<or>
              (65280 \<le> c \<and> c \<le> 65376) then 2
      else 1)"

definition utf8_isprint :: "int \<Rightarrow> bool" where
  "utf8_isprint c = (32 \<le> c \<and> c < 127)"

definition utf8_libc :: libc where
  "utf8_libc = \<lparr>mbtowc = utf8_mbtowc, wcwidth = utf8_wcwidth, isprint = utf8_isprint,
                 beyond_buf = (\<lambda>_ _. [CHR 0x00])\<rparr>"

section \<open>The wide-character decoder \<^verbatim>\<open>my_getwc\<close>\<close>

definition MAX_ENC_BYTES :: nat where
  "MAX_ENC_BYTES = 16"

text \<open>
  The three \<^verbatim>\<open>return\<close> statements of \<^verbatim>\<open>my_getwc\<close>: a legal conversion (line 253), the
  end-of-file test (line 247) and the full buffer (line 257, after \<^verbatim>\<open>errno = -EILSEQ\<close>).
  The caller sees \<^verbatim>\<open>WEOF\<close> for the last two.
\<close>

datatype getwc_result = Legal int | Eof | Ilseq

fun wint_of :: "getwc_result \<Rightarrow> int" where
  "wint_of (Legal c) = c"
| "wint_of Eof = WEOF"
| "wint_of Ilseq = WEOF"

text \<open>\<^verbatim>\<open>while(byte > 1) { ungetc(i[--byte], s); }\<close>\<close>

fun unget_loop :: "string \<Rightarrow> nat \<Rightarrow> string \<Rightarrow> string" where
  "unget_loop i byte s =
     (if byte > 1 then unget_loop i (byte - 1) (ungetc (schar (i ! (byte - 1))) s) else s)"

lemma uchar_range: "0 \<le> uchar b \<and> uchar b < 256"
  unfolding uchar_def
  by (metis of_char_mod_256 pos_mod_bound pos_mod_sign zero_less_numeral)

lemma to_char_uchar [simp]: "to_char (uchar b) = b"
  by (simp add: to_char_def uchar_def)

lemma to_char_EOF [simp]: "to_char EOF = CHR 0xFF"
  unfolding to_char_def EOF_def by code_simp

lemma schar_EOF_iff: "schar b = EOF \<longleftrightarrow> b = CHR 0xFF"
proof
  assume "schar b = EOF"
  then have "uchar b = 255"
    using uchar_range [of b] by (auto simp: schar_def EOF_def split: if_splits)
  then have "to_char (uchar b) = to_char 255" by simp
  moreover have "to_char 255 = CHR 0xFF" unfolding to_char_def by code_simp
  ultimately show "b = CHR 0xFF" by simp
next
  assume "b = CHR 0xFF"
  then show "schar b = EOF" by (simp add: schar_def uchar_def EOF_def)
qed

lemma to_char_schar [simp]: "to_char (schar b) = b"
proof -
  have "char_of ((uchar b - 256) mod 256) = char_of (uchar b mod 256)"
    by (simp add: mod_diff_eq [symmetric])
  then have "to_char (uchar b - 256) = to_char (uchar b)"
    unfolding to_char_def by (simp only: char_of_mod_256)
  then show ?thesis
    by (simp add: schar_def)
qed

text \<open>
  The loop of \<^verbatim>\<open>my_getwc\<close> (lines 245-259), with the buffer \<open>i\<close> as the list of the
  \<^verbatim>\<open>byte\<close> bytes stored so far. Beside the value returned and the stream left behind, the
  model returns the number of bytes \<^verbatim>\<open>getc\<close> has delivered to this call (a ghost value: \<open>byte\<close>
  as it stands before the push-back loop).
\<close>

function my_getwc_loop :: "libc \<Rightarrow> string \<Rightarrow> string \<Rightarrow> getwc_result \<times> string \<times> nat" where
  "my_getwc_loop lc i s =
     (let (g, s1) = getc s; ch = to_char g in
      if schar ch = EOF then (Eof, s1, length i + (if g = EOF then 0 else 1))
      else
        let i' = i @ [ch]; (convert, rval) = mbtowc lc i' in
        if convert > 0 then (Legal rval, s1, length i')
        else if length i' = MAX_ENC_BYTES
          then (Ilseq, unget_loop i' (length i') s1, length i')
        else my_getwc_loop lc i' s1)"
  by pat_completeness auto
termination
  apply (relation "measure (\<lambda>(lc, i, s). length s)")
   apply simp
  subgoal for lc i s x g s1
    by (cases s) (auto simp: schar_EOF_iff)
  done

declare my_getwc_loop.simps [simp del]
declare unget_loop.simps [simp del]

definition my_getwc :: "libc \<Rightarrow> string \<Rightarrow> getwc_result \<times> string" where
  "my_getwc lc s = (let (r, s', n) = my_getwc_loop lc [] s in (r, s'))"

subsection \<open>Properties of the decoder\<close>

lemma uchar_neq_EOF [simp]: "uchar b \<noteq> EOF"
  using uchar_range [of b] by (simp add: EOF_def)

lemma my_getwc_loop_Nil: "my_getwc_loop lc i [] = (Eof, [], length i)"
  by (simp add: my_getwc_loop.simps [of lc i "[]"] schar_EOF_iff)

lemma my_getwc_loop_Cons:
  "my_getwc_loop lc i (b # s) =
     (if b = CHR 0xFF then (Eof, s, Suc (length i))
      else case mbtowc lc (i @ [b]) of
        (convert, rval) \<Rightarrow>
          if convert > 0 then (Legal rval, s, Suc (length i))
          else if Suc (length i) = MAX_ENC_BYTES
            then (Ilseq, unget_loop (i @ [b]) (Suc (length i)) s, Suc (length i))
          else my_getwc_loop lc (i @ [b]) s)"
  by (simp add: my_getwc_loop.simps [of lc i "b # s"] schar_EOF_iff Let_def
           split: prod.splits)

lemma unget_loop_eq:
  "k \<le> length i \<Longrightarrow> CHR 0xFF \<notin> set i \<Longrightarrow> unget_loop i k s = drop 1 (take k i) @ s"
proof (induction k arbitrary: s)
  case 0
  then show ?case by (subst unget_loop.simps) simp
next
  case (Suc k)
  show ?case
  proof (cases "k = 0")
    case True
    then show ?thesis by (subst unget_loop.simps) (simp add: take_Suc)
  next
    case False
    from Suc.prems have k: "k < length i" by simp
    then have "i ! k \<in> set i" by simp
    with Suc.prems have "i ! k \<noteq> CHR 0xFF" by metis
    then have u: "ungetc (schar (i ! k)) s = i ! k # s"
      by (simp add: ungetc_def schar_EOF_iff)
    have "unget_loop i (Suc k) s = unget_loop i k (i ! k # s)"
      using False u by (subst unget_loop.simps) simp
    also have "\<dots> = drop 1 (take k i) @ (i ! k # s)"
      using Suc.IH [of "i ! k # s"] Suc.prems by simp
    also have "\<dots> = drop 1 (take (Suc k) i) @ s"
      using False k by (simp add: take_Suc_conv_app_nth)
    finally show ?thesis .
  qed
qed

lemma my_getwc_loop_ex_ff: "my_getwc_loop utf8_libc [] [CHR 0xFF, CHR ''A''] = (Eof, ''A'', 1)"
  by (simp add: my_getwc_loop_Cons)
lemma my_getwc_loop_ex_ascii: "my_getwc_loop utf8_libc [] ''A'' = (Legal 65, [], 1)"
  by (simp add: my_getwc_loop_Cons utf8_libc_def uchar_def)
lemma my_getwc_loop_ex_wide: "my_getwc_loop utf8_libc [] [CHR 0xE3, CHR 0x81, CHR 0x82, CHR ''A''] = (Legal 12354, ''A'', 3)"
  by (simp add: my_getwc_loop_Cons utf8_libc_def uchar_def utf8_cont_def MAX_ENC_BYTES_def)
lemma my_getwc_loop_ex_ilseq: "my_getwc_loop utf8_libc [] (replicate 16 (CHR 0x80) @ ''A'') = (Ilseq, replicate 15 (CHR 0x80) @ ''A'', 16)"
  by (simp add: my_getwc_loop_Cons utf8_libc_def uchar_def utf8_cont_def MAX_ENC_BYTES_def unget_loop_eq
      numeral_eq_Suc)


lemma my_getwc_loop_inv:
  assumes "my_getwc_loop lc i s = (r, s', n)"
    and "length i < MAX_ENC_BYTES" and "CHR 0xFF \<notin> set i"
  shows "length i \<le> n \<and> n \<le> MAX_ENC_BYTES \<and> n \<le> length i + length s \<and>
         (r = Eof \<longrightarrow> s' = drop (n - length i) s) \<and>
         (\<forall>c. r = Legal c \<longrightarrow> length i < n \<and> s' = drop (n - length i) s) \<and>
         (r = Ilseq \<longrightarrow> n = MAX_ENC_BYTES \<and>
            s' = drop 1 (i @ take (MAX_ENC_BYTES - length i) s) @ drop (MAX_ENC_BYTES - length i) s)"
  using assms
proof (induction s arbitrary: i)
  case Nil
  then show ?case by (auto simp: my_getwc_loop_Nil)
next
  case (Cons b s)
  show ?case
  proof (cases "b = CHR 0xFF")
    case True
    with Cons.prems show ?thesis by (auto simp: my_getwc_loop_Cons)
  next
    case nff: False
    obtain convert rval where mb: "mbtowc lc (i @ [b]) = (convert, rval)"
      by (cases "mbtowc lc (i @ [b])")
    show ?thesis
    proof (cases "convert > 0")
      case True
      with Cons.prems nff mb show ?thesis by (auto simp: my_getwc_loop_Cons)
    next
      case nconv: False
      show ?thesis
      proof (cases "Suc (length i) = MAX_ENC_BYTES")
        case True
        have nf: "CHR 0xFF \<notin> set (i @ [b])" using Cons.prems nff by simp
        have "unget_loop (i @ [b]) (Suc (length i)) s = drop 1 (i @ [b]) @ s"
          using unget_loop_eq [OF _ nf, of "Suc (length i)" s] by simp
        moreover have "MAX_ENC_BYTES - length i = 1" using True by simp
        ultimately show ?thesis
          using Cons.prems nff mb nconv True by (auto simp: my_getwc_loop_Cons)
      next
        case False
        with Cons.prems nff mb nconv
        have rec: "my_getwc_loop lc (i @ [b]) s = (r, s', n)"
          by (simp add: my_getwc_loop_Cons)
        have l: "length (i @ [b]) < MAX_ENC_BYTES" using False Cons.prems by simp
        have nf: "CHR 0xFF \<notin> set (i @ [b])" using Cons.prems nff by simp
        from Cons.IH [OF rec l nf] have ih:
          "length (i @ [b]) \<le> n \<and> n \<le> MAX_ENC_BYTES \<and> n \<le> length (i @ [b]) + length s \<and>
           (r = Eof \<longrightarrow> s' = drop (n - length (i @ [b])) s) \<and>
           (\<forall>c. r = Legal c \<longrightarrow> length (i @ [b]) < n \<and> s' = drop (n - length (i @ [b])) s) \<and>
           (r = Ilseq \<longrightarrow> n = MAX_ENC_BYTES \<and>
              s' = drop 1 ((i @ [b]) @ take (MAX_ENC_BYTES - length (i @ [b])) s)
                   @ drop (MAX_ENC_BYTES - length (i @ [b])) s)" .
        have d: "\<And>m. length i < m \<Longrightarrow> drop (m - length i) (b # s) = drop (m - Suc (length i)) s"
          by (simp add: drop_Cons' )
        have t: "take (MAX_ENC_BYTES - length i) (b # s) = b # take (MAX_ENC_BYTES - Suc (length i)) s"
          using Cons.prems by (simp add: take_Cons')
        from ih show ?thesis
          using d [of n] d [of MAX_ENC_BYTES] t Cons.prems(2) by auto
      qed
    qed
  qed
qed

lemma drop1_take_drop: "0 < k \<Longrightarrow> drop 1 (take k s) @ drop k s = drop 1 s"
  by (cases s; cases k) simp_all

text \<open>
  Claim C6. For every locale and every byte stream, one call of \<^verbatim>\<open>my_getwc\<close> takes at most 16
  bytes from the stream (\<open>n\<close>, never more than the stream holds). When it gives up with the
  buffer full (\<open>Ilseq\<close>: 16 bytes read, none of them decoding), the 15 bytes after the first
  are pushed back, so the stream has advanced by exactly one byte; in the other cases the
  stream has advanced by the \<open>n\<close> bytes read. Whenever the call does not report the end of the
  stream, the stream left behind is strictly shorter, so repeated calls make progress.
\<close>

theorem my_getwc_bounded_progress:
  assumes "my_getwc_loop lc [] s = (r, s', n)"
  shows "my_getwc lc s = (r, s') \<and> n \<le> 16 \<and> n \<le> length s \<and>
         (r = Ilseq \<longrightarrow> n = 16 \<and> s' = drop 1 s) \<and>
         (r \<noteq> Ilseq \<longrightarrow> s' = drop n s) \<and>
         (r \<noteq> Eof \<longrightarrow> length s' < length s)"
proof -
  have inv: "n \<le> MAX_ENC_BYTES \<and> n \<le> length s \<and>
         (r = Eof \<longrightarrow> s' = drop n s) \<and>
         (\<forall>c. r = Legal c \<longrightarrow> 0 < n \<and> s' = drop n s) \<and>
         (r = Ilseq \<longrightarrow> n = MAX_ENC_BYTES \<and>
            s' = drop 1 (take MAX_ENC_BYTES s) @ drop MAX_ENC_BYTES s)"
    using my_getwc_loop_inv [OF assms] by (simp add: MAX_ENC_BYTES_def)
  have il: "r = Ilseq \<Longrightarrow> s' = drop 1 s"
  proof -
    assume "r = Ilseq"
    with inv have "s' = drop 1 (take MAX_ENC_BYTES s) @ drop MAX_ENC_BYTES s"
      and "MAX_ENC_BYTES \<le> length s" by auto
    then show ?thesis
      using drop1_take_drop [of 16 s] by (simp add: MAX_ENC_BYTES_def)
  qed
  have "my_getwc lc s = (r, s')" using assms by (simp add: my_getwc_def)
  moreover have "r \<noteq> Eof \<Longrightarrow> length s' < length s"
    using inv il by (cases r) (auto simp: MAX_ENC_BYTES_def)
  moreover have "r \<noteq> Ilseq \<Longrightarrow> s' = drop n s"
    using inv by (cases r) auto
  ultimately show ?thesis using inv il by (auto simp: MAX_ENC_BYTES_def)
qed

theorem my_getwc_bounded_progress_witness:
  "my_getwc_loop utf8_libc [] (replicate 16 (CHR 0x80) @ ''A'') =
     (Ilseq, replicate 15 (CHR 0x80) @ ''A'', 16) \<and>
   my_getwc utf8_libc (replicate 16 (CHR 0x80) @ ''A'') = (Ilseq, replicate 15 (CHR 0x80) @ ''A'') \<and>
   replicate 15 (CHR 0x80) @ ''A'' = drop 1 (replicate 16 (CHR 0x80) @ ''A'') \<and>
   length (replicate 15 (CHR 0x80) @ ''A'') < length (replicate 16 (CHR 0x80) @ ''A'')"
proof (intro conjI)
  show "my_getwc_loop utf8_libc [] (replicate 16 (CHR 0x80) @ ''A'') =
          (Ilseq, replicate 15 (CHR 0x80) @ ''A'', 16)"
    by (rule my_getwc_loop_ex_ilseq)
  show "my_getwc utf8_libc (replicate 16 (CHR 0x80) @ ''A'') =
          (Ilseq, replicate 15 (CHR 0x80) @ ''A'')"
    using my_getwc_bounded_progress [OF my_getwc_loop_ex_ilseq] by (rule conjunct1)
  show "replicate 15 (CHR 0x80) @ ''A'' = drop 1 (replicate 16 (CHR 0x80) @ ''A'')"
    by (simp add: numeral_eq_Suc)
  show "length (replicate 15 (CHR 0x80) @ ''A'') < length (replicate 16 (CHR 0x80) @ ''A'')"
    by simp
qed

text \<open>
  Claim C10 (as amended). With a signed plain \<^verbatim>\<open>char\<close>, \<^verbatim>\<open>my_getwc\<close> returns \<^verbatim>\<open>WEOF\<close> as soon as
  \<^verbatim>\<open>getc\<close> delivers a byte \<^verbatim>\<open>0xFF\<close>, whatever the buffer \<open>i\<close> already holds: the byte is taken
  from the stream, and the bytes after it stay in the stream for the next call.
\<close>

theorem my_getwc_0xFF_is_eof:
  "my_getwc_loop lc i (CHR 0xFF # s) = (Eof, s, Suc (length i)) \<and>
   my_getwc lc (CHR 0xFF # s) = (Eof, s) \<and> wint_of Eof = WEOF"
  by (simp add: my_getwc_loop_Cons my_getwc_def)

section \<open>The C library's number conversions\<close>

text \<open>
  \<^verbatim>\<open>strtol(nptr, &endptr, base)\<close> as the C standard defines it, on a C string (the bytes
  before the first NUL): white space is skipped, then an optional sign, then for base 0 or
  16 an optional \<^verbatim>\<open>0x\<close> (taken only when a hexadecimal digit follows), then the longest run of
  digits of the base. The result is the value, clamped to the range of \<^verbatim>\<open>long\<close> (64 bits on
  this platform), and the number of bytes consumed, that is \<^verbatim>\<open>endptr - nptr\<close>; without a digit
  the value is 0 and nothing is consumed. \<open>show_int\<close> is the text \<^verbatim>\<open>snprintf\<close> writes for
  \<^verbatim>\<open>%d\<close>.
\<close>

definition cstring :: "string \<Rightarrow> string" where
  "cstring buf = takeWhile (\<lambda>c. c \<noteq> CHR 0x00) buf"

definition isspace :: "char \<Rightarrow> bool" where
  "isspace c = (c \<in> set [CHR '' '', CHR 0x09, CHR 0x0A, CHR 0x0B, CHR 0x0C, CHR 0x0D])"

definition digit_val :: "char \<Rightarrow> nat" where
  "digit_val c =
     (let u = uchar c in
      if 48 \<le> u \<and> u \<le> 57 then nat (u - 48)
      else if 97 \<le> u \<and> u \<le> 122 then nat (u - 87)
      else if 65 \<le> u \<and> u \<le> 90 then nat (u - 55)
      else 36)"

definition LONG_MAX :: int where
  "LONG_MAX = 2 ^ 63 - 1"

definition LONG_MIN :: int where
  "LONG_MIN = - (2 ^ 63)"

definition strtol :: "string \<Rightarrow> nat \<Rightarrow> int \<times> nat" where
  "strtol nptr base =
     (let ws = length (takeWhile isspace nptr);
          s1 = drop ws nptr;
          neg = (take 1 s1 = ''-'');
          sg = (if take 1 s1 = ''-'' \<or> take 1 s1 = ''+'' then 1 else 0);
          s2 = drop sg s1;
          hex = ((base = 0 \<or> base = 16) \<and> (take 2 s2 = ''0x'' \<or> take 2 s2 = ''0X'') \<and>
                 (case drop 2 s2 of [] \<Rightarrow> False | d # _ \<Rightarrow> digit_val d < 16));
          b = (if base = 0 then (if hex then 16 else if take 1 s2 = ''0'' then 8 else 10)
               else base);
          px = (if hex then 2 else 0);
          ds = takeWhile (\<lambda>c. digit_val c < b) (drop px s2);
          v = foldl (\<lambda>a c. a * int b + int (digit_val c)) 0 ds
      in if ds = [] then (0, 0)
         else (max LONG_MIN (min LONG_MAX (if neg then - v else v)), ws + sg + px + length ds))"

text \<open>The conversion of a \<^verbatim>\<open>long\<close> to the 32-bit \<^verbatim>\<open>int\<close> it is assigned to.\<close>

definition int_of_long :: "int \<Rightarrow> int" where
  "int_of_long v = (v + 2 ^ 31) mod 2 ^ 32 - 2 ^ 31"

fun show_nat :: "nat \<Rightarrow> string" where
  "show_nat n =
     (if n < 10 then [''0123456789'' ! n]
      else show_nat (n div 10) @ [''0123456789'' ! (n mod 10)])"

declare show_nat.simps [simp del]

definition show_int :: "int \<Rightarrow> string" where
  "show_int v = (if v < 0 then CHR ''-'' # show_nat (nat (- v)) else show_nat (nat v))"

section \<open>The terminal surface\<close>

text \<open>
  The curses window, as far as the program uses it: a cell holds a wide character and its
  attributes (\<^verbatim>\<open>cchar_t\<close>: \<^verbatim>\<open>chars[0]\<close> and \<^verbatim>\<open>attr\<close>), the window holds the cells and the
  attributes new text is written with. The attributes the program ever sets are standout,
  bold and a colour pair; \<open>has_attributes\<close> is \<^verbatim>\<open>attr & A_ATTRIBUTES\<close> being nonzero, the mask
  that covers all of them. \<^verbatim>\<open>standout()\<close>, \<^verbatim>\<open>standend()\<close> and \<^verbatim>\<open>attrset(a)\<close> replace all
  attributes (the library implements the first two as \<^verbatim>\<open>attrset(A_STANDOUT)\<close> and
  \<^verbatim>\<open>attrset(A_NORMAL)\<close>), \<^verbatim>\<open>color_set(n, NULL)\<close> replaces the colour pair.
  \<^verbatim>\<open>move(y, x)\<close> followed by \<^verbatim>\<open>in_wch\<close> reads the cell at \<open>(y, x)\<close>; followed by
  \<^verbatim>\<open>addnwstr(&c, 1)\<close> it stores \<open>c\<close> there with the window's attributes; \<^verbatim>\<open>clear()\<close> blanks
  every cell.

  The limits of this window. \<open>mv_addnwstr\<close> stores every character in the one cell at
  \<open>(y, x)\<close>. That is what curses does with a printable character of width 1. A control
  character, a combining character and a double-width character it lays out differently
  (as a caret pair, in the cell of the character before, over two cells), and none of this
  is modelled: what \<open>mv_in_wch\<close> reads back from a window is the cell of the library only
  where the text written was of printable characters of width 1. The window also has a cell
  for every position the program can name, also for one outside the screen, where curses
  refuses the move: what the screen then shows is not modelled.
\<close>

record attrs =
  standout :: bool
  bold :: bool
  color_pair :: int

record cchar =
  chars0 :: int
  cattr :: attrs

record window =
  cells :: "int \<times> int \<Rightarrow> cchar"
  wattr :: attrs

definition A_NORMAL :: attrs where
  "A_NORMAL = \<lparr>standout = False, bold = False, color_pair = 0\<rparr>"

definition A_BOLD :: attrs where
  "A_BOLD = \<lparr>standout = False, bold = True, color_pair = 0\<rparr>"

definition A_STANDOUT :: attrs where
  "A_STANDOUT = \<lparr>standout = True, bold = False, color_pair = 0\<rparr>"

definition has_attributes :: "attrs \<Rightarrow> bool" where
  "has_attributes a = (standout a \<or> bold a \<or> color_pair a \<noteq> 0)"

definition curs_standout :: "window \<Rightarrow> window" where
  "curs_standout w = w\<lparr>wattr := A_STANDOUT\<rparr>"

definition curs_standend :: "window \<Rightarrow> window" where
  "curs_standend w = w\<lparr>wattr := A_NORMAL\<rparr>"

definition curs_attrset :: "attrs \<Rightarrow> window \<Rightarrow> window" where
  "curs_attrset a w = w\<lparr>wattr := a\<rparr>"

definition curs_color_set :: "int \<Rightarrow> window \<Rightarrow> window" where
  "curs_color_set n w = w\<lparr>wattr := (wattr w)\<lparr>color_pair := n\<rparr>\<rparr>"

definition mv_in_wch :: "window \<Rightarrow> int \<Rightarrow> int \<Rightarrow> cchar" where
  "mv_in_wch w y x = cells w (y, x)"

definition mv_addnwstr :: "int \<Rightarrow> int \<Rightarrow> int \<Rightarrow> window \<Rightarrow> window" where
  "mv_addnwstr y x c w = w\<lparr>cells := (cells w)((y, x) := \<lparr>chars0 = c, cattr = wattr w\<rparr>)\<rparr>"

definition blank_cell :: cchar where
  "blank_cell = \<lparr>chars0 = 32, cattr = A_NORMAL\<rparr>"

definition curs_clear :: "window \<Rightarrow> window" where
  "curs_clear w = w\<lparr>cells := (\<lambda>_. blank_cell)\<rparr>"

definition initscr :: window where
  "initscr = \<lparr>cells = (\<lambda>_. blank_cell), wattr = A_NORMAL\<rparr>"

section \<open>The ANSI escape processor\<close>

definition MAX_ANSIBUF :: nat where
  "MAX_ANSIBUF = 10"

definition set_ansi_attribute :: "int \<Rightarrow> window \<Rightarrow> window" where
  "set_ansi_attribute attrib w =
     (if attrib = -1 then w
      else if attrib = 0 then curs_standend w
      else if attrib = 1 then curs_attrset A_BOLD w
      else if attrib \<ge> 30 \<and> attrib \<le> 37 then curs_color_set (attrib - 29) w
      else w)"

text \<open>\<^verbatim>\<open>while(--i >= 0) ungetc(buf[i],fp);\<close>\<close>

fun unget_buf :: "string \<Rightarrow> nat \<Rightarrow> string \<Rightarrow> string" where
  "unget_buf buf i s =
     (if i > 0 then unget_buf buf (i - 1) (ungetc (schar (buf ! (i - 1))) s) else s)"

declare unget_buf.simps [simp del]

text \<open>
  The \<^verbatim>\<open>for\<close> loop of \<^verbatim>\<open>process_ansi\<close> (lines 121-136), with \<open>buf\<close> as the list of the \<open>i\<close>
  bytes stored so far. It ends in one of three ways: at the byte \<^verbatim>\<open>m\<close> (the buffer is
  terminated), in the \<^verbatim>\<open>if\<close> that pushes the buffer back and returns, or with \<open>i\<close> at
  \<^verbatim>\<open>MAX_ANSIBUF\<close> and the buffer full without a terminating NUL.
\<close>

datatype ansi_scan = Terminated string string | Rejected string | Unterminated string string

function ansi_loop :: "string \<Rightarrow> string \<Rightarrow> ansi_scan" where
  "ansi_loop buf s =
     (if length buf < MAX_ANSIBUF then
        (let (c, s1) = getc s in
         if c = uchar (CHR ''m'') then Terminated buf s1
         else if c < uchar (CHR ''0'') \<and> c > uchar (CHR ''9'') \<and> c \<noteq> uchar (CHR '';'')
           then Rejected (unget_buf buf (length buf) s1)
         else ansi_loop (buf @ [to_char c]) s1)
      else Unterminated buf s)"
  by pat_completeness auto
termination
  by (relation "measure (\<lambda>(buf, s). MAX_ANSIBUF - length buf)") auto

declare ansi_loop.simps [simp del]

text \<open>
  Lines 137-143: the buffer, read as a C string, is parsed as one or two numbers, and the
  attributes are set.
\<close>

definition ansi_apply :: "string \<Rightarrow> window \<Rightarrow> window" where
  "ansi_apply buf w =
     (let str = cstring buf;
          (v1, n1) = strtol str 10;
          num1 = int_of_long v1;
          nextnum = drop n1 str;
          num2 = (if n1 \<noteq> 0 \<and> nextnum \<noteq> []
                  then int_of_long (fst (strtol (drop 1 nextnum) 10)) else -1)
      in set_ansi_attribute num2 (set_ansi_attribute num1 w))"

text \<open>
  \<^verbatim>\<open>process_ansi\<close>. At the byte \<^verbatim>\<open>m\<close> line 126 terminates the buffer with a NUL. When the loop
  ends with the buffer full, nothing terminates it: \<^verbatim>\<open>strtol\<close> reads the ten bytes of the
  array and whatever lies behind them in memory, up to the first byte that ends the number
  (for \<^verbatim>\<open>ESC [ 1\<close> at the end of the input that is the second byte of the array, the first
  of the nine \<^verbatim>\<open>0xFF\<close> into which line 135 turns \<^verbatim>\<open>EOF\<close>).
\<close>

definition process_ansi :: "libc \<Rightarrow> string \<Rightarrow> window \<Rightarrow> string \<times> window" where
  "process_ansi lc fp w =
     (let (c, s1) = getc fp in
      if c \<noteq> uchar (CHR ''['') then (ungetc c s1, w)
      else
        case ansi_loop [] s1 of
          Rejected s2 \<Rightarrow> (s2, w)
        | Unterminated buf s2 \<Rightarrow> (s2, ansi_apply (buf @ beyond_buf lc buf s2) w)
        | Terminated buf s2 \<Rightarrow> (s2, ansi_apply buf w))"

subsection \<open>Properties of the escape processor\<close>

lemma uchar_eq_iff [simp]: "uchar a = uchar b \<longleftrightarrow> a = b"
  by (metis to_char_uchar)

lemma EOF_neq_uchar [simp]: "EOF \<noteq> uchar b"
  by (metis uchar_neq_EOF)

lemma ansi_guard_false [simp]:
  "(c < uchar (CHR ''0'') \<and> uchar (CHR ''9'') < c \<and> P) = False"
  by (simp add: uchar_def)

lemma ansi_guard_false2 [simp]:
  "(c < uchar (CHR ''0'') \<and> uchar (CHR ''9'') < c) = False"
  by (simp add: uchar_def)

lemma ansi_loop_full: "\<not> length buf < MAX_ANSIBUF \<Longrightarrow> ansi_loop buf s = Unterminated buf s"
  by (simp add: ansi_loop.simps [of buf s])

lemma ansi_loop_Cons:
  "length buf < MAX_ANSIBUF \<Longrightarrow>
   ansi_loop buf (b # s) = (if b = CHR ''m'' then Terminated buf s else ansi_loop (buf @ [b]) s)"
  by (simp add: ansi_loop.simps [of buf "b # s"])

lemma ansi_loop_Nil:
  "length buf < MAX_ANSIBUF \<Longrightarrow> ansi_loop buf [] = ansi_loop (buf @ [CHR 0xFF]) []"
  by (simp add: ansi_loop.simps [of buf "[]"])

lemma ansi_loop_never_rejects: "ansi_loop buf s \<noteq> Rejected s'"
proof (induction buf s rule: ansi_loop.induct)
  case (1 buf s)
  show ?case
  proof (cases "length buf < MAX_ANSIBUF")
    case False
    then show ?thesis by (simp add: ansi_loop_full)
  next
    case True
    obtain c s1 where g: "getc s = (c, s1)" by (cases "getc s")
    show ?thesis
    proof (cases "c = uchar (CHR ''m'')")
      case True
      with \<open>length buf < MAX_ANSIBUF\<close> g show ?thesis
        by (simp add: ansi_loop.simps [of buf s])
    next
      case False
      have "ansi_loop (buf @ [to_char c]) s1 \<noteq> Rejected s'"
        using 1 [OF True refl g [symmetric] False] by simp
      with False True g show ?thesis
        by (simp add: ansi_loop.simps [of buf s])
    qed
  qed
qed

lemma ansi_loop_ex: "ansi_loop [] ''3x1mZ'' = Terminated ''3x1'' ''Z''"
  by (simp add: ansi_loop_Cons MAX_ANSIBUF_def)

lemma strtol_ex_3x1: "strtol ''3x1'' 10 = (3, 1)"
  by (simp add: strtol_def isspace_def digit_val_def uchar_def LONG_MAX_def LONG_MIN_def Let_def)

lemma strtol_ex_1: "strtol ''1'' 10 = (1, 1)"
  by (simp add: strtol_def isspace_def digit_val_def uchar_def LONG_MAX_def LONG_MIN_def Let_def)

text \<open>
  Claim C3 (the code departs from it). The test of line 129,
  \<^verbatim>\<open>c < '0' && c > '9' && c != ';'\<close>, holds for no byte, so the loop never takes the branch that
  pushes the buffer back: a byte that is neither a digit nor \<^verbatim>\<open>;\<close> is stored like any other.
  On the bytes \<^verbatim>\<open>[3x1m\<close> after the escape character, \<^verbatim>\<open>process_ansi\<close> consumes all five bytes
  and switches bold on (\<^verbatim>\<open>strtol\<close> reads 3 and stops at \<^verbatim>\<open>x\<close>, the second number is 1).
\<close>

theorem process_ansi_malformed_applied:
  "ansi_loop buf s \<noteq> Rejected s' \<and>
   process_ansi lc ''[3x1mZ'' initscr = (''Z'', initscr\<lparr>wattr := A_BOLD\<rparr>)"
  by (simp add: ansi_loop_never_rejects process_ansi_def ansi_apply_def ansi_loop_ex
      strtol_ex_3x1 strtol_ex_1 cstring_def int_of_long_def set_ansi_attribute_def
      curs_attrset_def)

text \<open>
  An escape sequence that the input ends in: on \<^verbatim>\<open>[1\<close> and the end of the input the loop fills
  the buffer with \<^verbatim>\<open>1\<close> and nine bytes \<^verbatim>\<open>0xFF\<close>. \<^verbatim>\<open>strtol\<close> reads 1 and stops at the second byte,
  the second number is read from the third byte on and is 0: the attributes are set to bold
  and then to normal, whatever lies behind the buffer, and the caller goes on.
\<close>

lemma ansi_loop_ex_open:
  "ansi_loop [] ''1'' =
     Unterminated [CHR ''1'', CHR 0xFF, CHR 0xFF, CHR 0xFF, CHR 0xFF, CHR 0xFF, CHR 0xFF,
                   CHR 0xFF, CHR 0xFF, CHR 0xFF] []"
  by (simp add: ansi_loop_Cons ansi_loop_Nil ansi_loop_full MAX_ANSIBUF_def)

lemma strtol_ex_open: "strtol (CHR ''1'' # CHR 0xFF # s) 10 = (1, 1)"
  by (simp add: strtol_def isspace_def digit_val_def uchar_def LONG_MAX_def LONG_MIN_def Let_def)

lemma strtol_ex_ff: "strtol (CHR 0xFF # s) 10 = (0, 0)"
  by (simp add: strtol_def isspace_def digit_val_def uchar_def LONG_MAX_def LONG_MIN_def Let_def)

lemma process_ansi_unterminated:
  "process_ansi lc ''[1'' w = ([], w\<lparr>wattr := A_NORMAL\<rparr>)"
  by (simp add: process_ansi_def ansi_loop_ex_open ansi_apply_def cstring_def
      strtol_ex_open strtol_ex_ff int_of_long_def set_ansi_attribute_def curs_attrset_def
      curs_standend_def)

section \<open>The terminal size\<close>

text \<open>
  The static variables of the program that the size and the render loop use. \<open>env\<close> is the
  process environment (\<^verbatim>\<open>getenv\<close>, \<^verbatim>\<open>putenv\<close>). \<^verbatim>\<open>ioctl(2, TIOCGWINSZ, &w)\<close> is a parameter of
  \<open>get_terminal_size\<close>: \<open>None\<close> when the call fails, otherwise \<^verbatim>\<open>(w.ws_row, w.ws_col)\<close>.
\<close>

record globals =
  height :: int
  width :: int
  screen_size_changed :: bool
  first_screen :: bool
  show_title :: int
  incoming_cols :: int
  incoming_rows :: int
  env :: "string \<rightharpoonup> string"

definition initial_globals :: "(string \<rightharpoonup> string) \<Rightarrow> globals" where
  "initial_globals e =
     \<lparr>height = 24, width = 80, screen_size_changed = False, first_screen = True,
      show_title = 2, incoming_cols = 0, incoming_rows = 0, env = e\<rparr>"

text \<open>Lines 185-197: \<^verbatim>\<open>COLUMNS\<close> is looked at only while \<^verbatim>\<open>incoming_cols\<close> is 0.\<close>

definition check_columns :: "globals \<Rightarrow> globals" where
  "check_columns g =
     (if incoming_cols g = 0 then
        (let g1 = g\<lparr>incoming_cols := -1\<rparr> in
         case env g ''COLUMNS'' of
           None \<Rightarrow> g1
         | Some s \<Rightarrow>
             if s = [] then g1
             else
               (let (t, n) = strtol s 0;
                    g2 = (if n = length s \<and> t > 0 \<and> t < 666 then g1\<lparr>incoming_cols := t\<rparr>
                          else g1);
                    g3 = g2\<lparr>width := incoming_cols g2\<rparr>
                in g3\<lparr>env := (env g3)(''COLUMNS'' \<mapsto> show_int (width g3))\<rparr>))
      else g)"

text \<open>Lines 198-210, the same for \<^verbatim>\<open>LINES\<close>.\<close>

definition check_lines :: "globals \<Rightarrow> globals" where
  "check_lines g =
     (if incoming_rows g = 0 then
        (let g1 = g\<lparr>incoming_rows := -1\<rparr> in
         case env g ''LINES'' of
           None \<Rightarrow> g1
         | Some s \<Rightarrow>
             if s = [] then g1
             else
               (let (t, n) = strtol s 0;
                    g2 = (if n = length s \<and> t > 0 \<and> t < 666 then g1\<lparr>incoming_rows := t\<rparr>
                          else g1);
                    g3 = g2\<lparr>height := incoming_rows g2\<rparr>
                in g3\<lparr>env := (env g3)(''LINES'' \<mapsto> show_int (height g3))\<rparr>))
      else g)"

text \<open>Lines 211-224: the query, for the dimensions the environment did not give.\<close>

definition query_size :: "(nat \<times> nat) option \<Rightarrow> globals \<Rightarrow> globals" where
  "query_size io g =
     (if incoming_cols g < 0 \<or> incoming_rows g < 0 then
        (case io of
           None \<Rightarrow> g
         | Some (ws_row, ws_col) \<Rightarrow>
             (let g1 = (if incoming_rows g < 0 \<and> ws_row > 0
                        then g\<lparr>height := int ws_row,
                               env := (env g)(''LINES'' \<mapsto> show_int (int ws_row))\<rparr>
                        else g)
              in if incoming_cols g1 < 0 \<and> ws_col > 0
                 then g1\<lparr>width := int ws_col,
                         env := (env g1)(''COLUMNS'' \<mapsto> show_int (int ws_col))\<rparr>
                 else g1))
      else g)"

definition get_terminal_size :: "(nat \<times> nat) option \<Rightarrow> globals \<Rightarrow> globals" where
  "get_terminal_size io g = query_size io (check_lines (check_columns g))"

section \<open>The process runner and the exits of a cycle\<close>

text \<open>
  What the system calls of one cycle return is a parameter: the results of \<^verbatim>\<open>pipe\<close>, \<^verbatim>\<open>fork\<close>,
  \<^verbatim>\<open>dup2\<close>, \<^verbatim>\<open>execvp\<close>, \<^verbatim>\<open>fdopen\<close> (whether it is \<^verbatim>\<open>NULL\<close>) and \<^verbatim>\<open>waitpid\<close>, and the status words of
  \<^verbatim>\<open>system\<close> and of the child as \<^verbatim>\<open>WIFEXITED\<close> and \<^verbatim>\<open>WEXITSTATUS\<close> read them.
\<close>

record syscalls =
  pipe_ret :: int
  fork_ret :: int
  dup2_ret :: int
  execvp_ret :: int
  system_wifexited :: bool
  system_wexitstatus :: int
  fdopen_null :: bool
  waitpid_ret :: int
  child_wifexited :: bool
  child_wexitstatus :: int

record options =
  option_differences :: bool
  option_differences_cumulative :: bool
  option_exec :: bool
  option_beep :: bool
  option_color :: bool
  option_errexit :: bool

text \<open>
  How a process leaves one pass of the \<^verbatim>\<open>for (;;)\<close> loop: \<open>Exit n\<close> is \<^verbatim>\<open>exit(n)\<close> (for the
  watching process through \<^verbatim>\<open>do_exit\<close>, which restores the terminal first), \<open>Exec\<close> is a
  successful \<^verbatim>\<open>execvp\<close> (the child becomes the command), \<open>Next_cycle\<close> is the end of the loop
  body.
\<close>

datatype leave = Exit int | Exec | Next_cycle

text \<open>The signal handler \<^verbatim>\<open>die\<close>: \<^verbatim>\<open>do_exit(0)\<close>.\<close>

definition die :: leave where
  "die = Exit 0"

text \<open>Lines 499-524, in the child (\<^verbatim>\<open>fork\<close> returned 0).\<close>

definition in_child :: "options \<Rightarrow> syscalls \<Rightarrow> leave" where
  "in_child opts sc =
     (if dup2_ret sc < 0 then Exit 3
      else if option_exec opts then (if execvp_ret sc = -1 then Exit 4 else Exec)
      else if \<not> system_wifexited sc then Exit 1
      else Exit (system_wexitstatus sc))"

text \<open>
  Lines 484-614 without the painting: the exits of the loop body, in the order the program
  reaches them.
\<close>

definition cycle_leave :: "options \<Rightarrow> syscalls \<Rightarrow> leave" where
  "cycle_leave opts sc =
     (if pipe_ret sc < 0 then Exit 7
      else if fork_ret sc < 0 then Exit 2
      else if fork_ret sc = 0 then in_child opts sc
      else if fdopen_null sc then Exit 5
      else if waitpid_ret sc < 0 then Exit 8
      else if (\<not> child_wifexited sc \<or> child_wexitstatus sc \<noteq> 0) \<and> option_errexit opts
        then Exit 8
      else Next_cycle)"

text \<open>Calls that all succeed, and the options as the program starts with them.\<close>

definition sc_ok :: syscalls where
  "sc_ok = \<lparr>pipe_ret = 0, fork_ret = 1234, dup2_ret = 1, execvp_ret = 0,
            system_wifexited = True, system_wexitstatus = 0, fdopen_null = False,
            waitpid_ret = 1234, child_wifexited = True, child_wexitstatus = 0\<rparr>"

definition opts_default :: options where
  "opts_default = \<lparr>option_differences = False, option_differences_cumulative = False,
      option_exec = False, option_beep = False, option_color = False, option_errexit = False\<rparr>"

subsection \<open>Exit codes\<close>

text \<open>
  Claim C4 (as amended). A failed \<^verbatim>\<open>pipe\<close>, \<^verbatim>\<open>fork\<close>, \<^verbatim>\<open>fdopen\<close> and \<^verbatim>\<open>waitpid\<close> end the watching
  process with the codes 7, 2, 5 and 8; a failed \<^verbatim>\<open>execvp\<close> ends the forked child with code 4;
  these five codes are nonzero and pairwise distinct. The exit on a child that failed, under
  the error-exit option, uses code 8 again, the code of the \<^verbatim>\<open>waitpid\<close> failure. The signal
  handler exits with 0.
\<close>

theorem exit_codes:
  "(pipe_ret sc < 0 \<longrightarrow> cycle_leave opts sc = Exit 7) \<and>
   (0 \<le> pipe_ret sc \<and> fork_ret sc < 0 \<longrightarrow> cycle_leave opts sc = Exit 2) \<and>
   (0 \<le> pipe_ret sc \<and> fork_ret sc = 0 \<and> 0 \<le> dup2_ret sc \<and> option_exec opts \<and>
      execvp_ret sc = -1 \<longrightarrow> cycle_leave opts sc = Exit 4) \<and>
   (0 \<le> pipe_ret sc \<and> 0 < fork_ret sc \<and> fdopen_null sc \<longrightarrow> cycle_leave opts sc = Exit 5) \<and>
   (0 \<le> pipe_ret sc \<and> 0 < fork_ret sc \<and> \<not> fdopen_null sc \<and> waitpid_ret sc < 0 \<longrightarrow>
      cycle_leave opts sc = Exit 8) \<and>
   (0 \<le> pipe_ret sc \<and> 0 < fork_ret sc \<and> \<not> fdopen_null sc \<and> 0 \<le> waitpid_ret sc \<and>
      (\<not> child_wifexited sc \<or> child_wexitstatus sc \<noteq> 0) \<and> option_errexit opts \<longrightarrow>
      cycle_leave opts sc = Exit 8) \<and>
   die = Exit 0 \<and> distinct [7, 2, 4, 5, 8 :: int] \<and> (0::int) \<notin> set [7, 2, 4, 5, 8]"
  by (simp add: cycle_leave_def in_child_def die_def)

theorem exit_codes_witness:
  "cycle_leave opts_default (sc_ok\<lparr>pipe_ret := -1\<rparr>) = Exit 7 \<and>
   cycle_leave opts_default (sc_ok\<lparr>fork_ret := -1\<rparr>) = Exit 2 \<and>
   cycle_leave (opts_default\<lparr>option_exec := True\<rparr>) (sc_ok\<lparr>fork_ret := 0, execvp_ret := -1\<rparr>) = Exit 4 \<and>
   cycle_leave opts_default (sc_ok\<lparr>fdopen_null := True\<rparr>) = Exit 5 \<and>
   cycle_leave opts_default (sc_ok\<lparr>waitpid_ret := -1\<rparr>) = Exit 8 \<and>
   cycle_leave (opts_default\<lparr>option_errexit := True\<rparr>) (sc_ok\<lparr>child_wexitstatus := 1\<rparr>) = Exit 8"
  using exit_codes [of "sc_ok\<lparr>pipe_ret := -1\<rparr>" opts_default]
    exit_codes [of "sc_ok\<lparr>fork_ret := -1\<rparr>" opts_default]
    exit_codes [of "sc_ok\<lparr>fork_ret := 0, execvp_ret := -1\<rparr>" "opts_default\<lparr>option_exec := True\<rparr>"]
    exit_codes [of "sc_ok\<lparr>fdopen_null := True\<rparr>" opts_default]
    exit_codes [of "sc_ok\<lparr>waitpid_ret := -1\<rparr>" opts_default]
    exit_codes [of "sc_ok\<lparr>child_wexitstatus := 1\<rparr>" "opts_default\<lparr>option_errexit := True\<rparr>"]
  by (simp add: sc_ok_def opts_default_def)

text \<open>
  Claim C4, as it is stated, does not hold: the \<^verbatim>\<open>waitpid\<close> failure and the error exit on a
  failed child leave with the same code, so the six codes are not pairwise distinct.
\<close>

theorem exit_codes_counterexample:
  "cycle_leave opts_default (sc_ok\<lparr>waitpid_ret := -1\<rparr>) =
   cycle_leave (opts_default\<lparr>option_errexit := True\<rparr>) (sc_ok\<lparr>child_wexitstatus := 1\<rparr>)"
  by (simp add: cycle_leave_def sc_ok_def opts_default_def)

subsection \<open>Properties of the terminal size\<close>





























section \<open>The layout and diff loop of one render\<close>

text \<open>The operator \<^verbatim>\<open>%\<close> of C on \<^verbatim>\<open>int\<close>: the remainder of the division that truncates.\<close>

definition c_rem :: "int \<Rightarrow> int \<Rightarrow> int" where
  "c_rem a b = a - b * (sgn a * sgn b * (\<bar>a\<bar> div \<bar>b\<bar>))"

text \<open>
  The condition of the \<^verbatim>\<open>do ... while\<close> of lines 545-556: the character read is dropped and
  another one is read.
\<close>

definition skip_char :: "libc \<Rightarrow> options \<Rightarrow> int \<Rightarrow> bool" where
  "skip_char lc opts c =
     (c \<noteq> WEOF \<and> \<not> isprint lc c \<and> c < 128 \<and> wcwidth lc c = 0 \<and> c \<noteq> 10 \<and> c \<noteq> 9 \<and>
      (c \<noteq> 27 \<or> \<not> option_color opts))"

lemma my_getwc_progress:
  assumes "my_getwc lc s = (r, s')" and "r \<noteq> Eof"
  shows "length s' < length s"
proof -
  obtain n where l: "my_getwc_loop lc [] s = (r, s', n)"
    using assms(1) by (auto simp: my_getwc_def split: prod.splits)
  have inv: "n \<le> MAX_ENC_BYTES \<and> n \<le> length s \<and>
         (\<forall>c. r = Legal c \<longrightarrow> 0 < n \<and> s' = drop n s) \<and>
         (r = Ilseq \<longrightarrow> n = MAX_ENC_BYTES \<and>
            s' = drop 1 (take MAX_ENC_BYTES s) @ drop MAX_ENC_BYTES s)"
    using my_getwc_loop_inv [OF l] by (simp add: MAX_ENC_BYTES_def)
  show ?thesis
  proof (cases r)
    case (Legal c)
    with inv show ?thesis by auto
  next
    case Eof
    with assms(2) show ?thesis by simp
  next
    case Ilseq
    with inv have "s' = drop 1 (take MAX_ENC_BYTES s) @ drop MAX_ENC_BYTES s"
      and "MAX_ENC_BYTES \<le> length s" by auto
    then show ?thesis
      using drop1_take_drop [of 16 s] by (simp add: MAX_ENC_BYTES_def)
  qed
qed

text \<open>
  The \<^verbatim>\<open>do ... while\<close> loop itself: the first character is the carried one, if there is one,
  and \<^verbatim>\<open>carry\<close> is \<^verbatim>\<open>WEOF\<close> from then on.
\<close>

function read_loop :: "libc \<Rightarrow> options \<Rightarrow> int \<Rightarrow> string \<Rightarrow> int \<times> string" where
  "read_loop lc opts cr s =
     (let (c, s1) = (if cr = WEOF then (let (r, s') = my_getwc lc s in (wint_of r, s'))
                     else (cr, s))
      in if skip_char lc opts c then read_loop lc opts WEOF s1 else (c, s1))"
  by pat_completeness auto
termination
proof (relation "measure (\<lambda>(lc, opts, cr, s). length s + (if cr = WEOF then 0 else 1))")
  show "wf (measure (\<lambda>(lc, opts, cr, s). length s + (if cr = WEOF then 0 else 1)))"
    by simp
next
  fix lc :: libc and opts :: options and cr :: int and s :: string and x c s1
  assume x: "x = (if cr = WEOF then let (r, s') = my_getwc lc s in (wint_of r, s') else (cr, s))"
    and c: "(c, s1) = x" and sk: "skip_char lc opts c"
  show "((lc, opts, WEOF, s1), (lc, opts, cr, s))
          \<in> measure (\<lambda>(lc, opts, cr, s). length s + (if cr = WEOF then 0 else 1))"
  proof (cases "cr = WEOF")
    case False
    with x c show ?thesis by simp
  next
    case True
    obtain r s' where g: "my_getwc lc s = (r, s')" by (cases "my_getwc lc s")
    with x c True have cs: "c = wint_of r" "s1 = s'" by simp_all
    from sk cs have "r \<noteq> Eof" by (auto simp: skip_char_def)
    from my_getwc_progress [OF g this] cs True show ?thesis by simp
  qed
qed

declare read_loop.simps [simp del]

text \<open>
  The state of the two nested \<^verbatim>\<open>for\<close> loops of lines 534-600 is the program counter (at the
  test of the outer loop, at the test of the inner loop, or past both loops), the variables \<open>y\<close> and \<open>x\<close> (\<open>row_y\<close> and \<open>col_x\<close>), the flags, the carried
  character, the stream \<open>p\<close> (\<open>fp\<close>) and the window. \<open>emitted\<close> records, in order, every cell the
  loop has painted: the position it moved to, the character it wrote and the value of
  \<^verbatim>\<open>attr\<close>, the highlight flag (a ghost variable). \<open>x\<close> and \<open>y\<close> are integers without a bound:
  \<open>x\<close> stays below the width, and \<open>y\<close> can pass the range of \<^verbatim>\<open>int\<close> only in a render that
  does not end.
\<close>

datatype pc = Outer_test | Inner_test | Finished

record cell_write =
  wy :: int
  wx :: int
  wc :: int
  highlight :: bool

record render_state =
  pc :: pc
  row_y :: int
  col_x :: int
  oldeolseen :: bool
  eolseen :: bool
  tabpending :: bool
  carry :: int
  fp :: string
  win :: window
  emitted :: "cell_write list"

text \<open>The \<^verbatim>\<open>x++\<close> of the inner loop, where \<^verbatim>\<open>continue\<close> jumps to.\<close>

definition continue_x :: "render_state \<Rightarrow> render_state" where
  "continue_x st = st\<lparr>col_x := col_x st + 1\<rparr>"

text \<open>
  Lines 582-590, the value of \<^verbatim>\<open>attr\<close>: whether the cell is highlighted, from the character
  to be written and the cell \<^verbatim>\<open>oldc\<close> that \<^verbatim>\<open>in_wch\<close> read from the screen.
\<close>

definition diff_attr :: "options \<Rightarrow> globals \<Rightarrow> int \<Rightarrow> cchar \<Rightarrow> bool" where
  "diff_attr opts g c oldc =
     (option_differences opts \<and> \<not> first_screen g \<and>
      (c \<noteq> chars0 oldc \<or>
       (option_differences_cumulative opts \<and> has_attributes (cattr oldc))))"

text \<open>Lines 581-597: the diff against the cell on the screen, and the painting.\<close>

definition paint :: "libc \<Rightarrow> options \<Rightarrow> globals \<Rightarrow> int \<Rightarrow> render_state \<Rightarrow> render_state" where
  "paint lc opts g c st =
     (let y = row_y st; x = col_x st;
          oldc = mv_in_wch (win st) y x;
          attr = diff_attr opts g c oldc;
          w1 = (if attr then curs_standout (win st) else win st);
          w2 = mv_addnwstr y x c w1;
          w3 = (if attr then curs_standend w2 else w2);
          x1 = (if wcwidth lc c = 0 then x - 1 else x);
          x2 = (if wcwidth lc c = 2 then x1 + 1 else x1)
      in continue_x
           (st\<lparr>win := w3, col_x := x2,
               emitted := emitted st @ [\<lparr>wy = y, wx = x, wc = c, highlight = attr\<rparr>]\<rparr>))"

text \<open>Lines 538-597: one pass through the body of the inner loop, and its \<^verbatim>\<open>x++\<close>.\<close>

definition inner_body :: "libc \<Rightarrow> options \<Rightarrow> globals \<Rightarrow> render_state \<Rightarrow> render_state" where
  "inner_body lc opts g st =
     (if \<not> eolseen st then
        (let (c, st1) =
               (if \<not> tabpending st
                then (let (c, s1) = read_loop lc opts (carry st) (fp st)
                      in (c, st\<lparr>carry := WEOF, fp := s1\<rparr>))
                else (32, st))
         in if c = 27 \<and> option_color opts then
              (let (s2, w2) = process_ansi lc (fp st1) (win st1)
               in continue_x (st1\<lparr>col_x := col_x st1 - 1, fp := s2, win := w2\<rparr>))
            else if c = 10 \<and> \<not> oldeolseen st1 \<and> col_x st1 = 0 then
              continue_x (st1\<lparr>col_x := -1\<rparr>)
            else
              (let st2 = (if c = 10 then st1\<lparr>eolseen := True\<rparr>
                          else if c = 9 then st1\<lparr>tabpending := True\<rparr>
                          else st1)
               in if col_x st2 = width g - 1 \<and> wcwidth lc c = 2 then
                    continue_x (st2\<lparr>row_y := row_y st2 + 1, col_x := -1, carry := c\<rparr>)
                  else
                    (let c' = (if c = WEOF \<or> c = 10 \<or> c = 9 then 32 else c);
                         st3 = (if tabpending st2 \<and> c_rem (col_x st2 + 1) 8 = 0
                                then st2\<lparr>tabpending := False\<rparr> else st2)
                     in paint lc opts g c' st3)))
      else paint lc opts g 32 st)"

text \<open>
  One step of the loops: the test of the outer loop with the initialisation of a row
  (lines 534-537), or the test of the inner loop with one pass through its body or, when it
  fails, the end of the row (line 599 and \<^verbatim>\<open>y++\<close>).
\<close>

definition step :: "libc \<Rightarrow> options \<Rightarrow> globals \<Rightarrow> render_state \<Rightarrow> render_state" where
  "step lc opts g st =
     (case pc st of
        Outer_test \<Rightarrow>
          if row_y st < height g
          then st\<lparr>pc := Inner_test, eolseen := False, tabpending := False, carry := WEOF,
                  col_x := 0\<rparr>
          else st\<lparr>pc := Finished\<rparr>
      | Inner_test \<Rightarrow>
          if col_x st < width g then inner_body lc opts g st
          else st\<lparr>pc := Outer_test, oldeolseen := eolseen st, row_y := row_y st + 1\<rparr>
      | Finished \<Rightarrow> st)"

fun run :: "libc \<Rightarrow> options \<Rightarrow> globals \<Rightarrow> nat \<Rightarrow> render_state \<Rightarrow> render_state" where
  "run lc opts g 0 st = st"
| "run lc opts g (Suc n) st = run lc opts g n (step lc opts g st)"

text \<open>The state in which a cycle enters the loops, on the stream \<open>s\<close> and the window \<open>w\<close>.\<close>

definition render_start :: "globals \<Rightarrow> string \<Rightarrow> window \<Rightarrow> render_state" where
  "render_start g s w =
     \<lparr>pc = Outer_test, row_y = show_title g, col_x = 0, oldeolseen = True, eolseen = False,
      tabpending = False, carry = WEOF, fp = s, win = w, emitted = []\<rparr>"

text \<open>
  Lines 430-437, the entry of a cycle: after a resize the size is read again, the screen is
  cleared and the render is marked as a first one. Line 616, its end.
\<close>

definition cycle_entry :: "(nat \<times> nat) option \<Rightarrow> globals \<Rightarrow> window \<Rightarrow> globals \<times> window" where
  "cycle_entry io g w =
     (if screen_size_changed g
      then ((get_terminal_size io g)\<lparr>screen_size_changed := False, first_screen := True\<rparr>,
            curs_clear w)
      else (g, w))"

definition cycle_end :: "globals \<Rightarrow> globals" where
  "cycle_end g = g\<lparr>first_screen := False\<rparr>"

text \<open>
  What a state shows of the render: where the loops stand, and the cells painted so far as
  (row, column, character, highlight flag); \<open>painted\<close> leaves the flag out.
\<close>

definition view :: "render_state \<Rightarrow> pc \<times> (int \<times> int \<times> int \<times> bool) list" where
  "view st = (pc st, map (\<lambda>e. (wy e, wx e, wc e, highlight e)) (emitted st))"

definition painted :: "render_state \<Rightarrow> (int \<times> int \<times> int) list" where
  "painted st = map (\<lambda>e. (wy e, wx e, wc e)) (emitted st)"

text \<open>A screen of \<open>h\<close> rows and \<open>w\<close> columns without a title, for running the model.\<close>

definition screen_globals :: "int \<Rightarrow> int \<Rightarrow> globals" where
  "screen_globals h w = (initial_globals Map.empty)\<lparr>height := h, width := w, show_title := 0\<rparr>"

text \<open>
  The options with the differences mode on, the window a render of \<^verbatim>\<open>hi\<close> leaves on a screen
  of one row and four columns, and the state of the program when a resize was signalled
  after a completed cycle.
\<close>

definition opts_diff :: options where
  "opts_diff = opts_default\<lparr>option_differences := True\<rparr>"

definition hi_window :: window where
  "hi_window = win (run utf8_libc opts_diff (screen_globals 1 4) 7
                      (render_start (screen_globals 1 4) ''hi'' initscr))"

definition resized_globals :: globals where
  "resized_globals = (screen_globals 1 4)\<lparr>first_screen := False, screen_size_changed := True\<rparr>"

text \<open>
  States of concrete renders: in front of a tab at column 2, in front of a newline at
  column 0 of the row after a full row, and in front of a newline at column 1 of the first
  row.
\<close>

definition tab_state :: render_state where
  "tab_state = run utf8_libc opts_default (screen_globals 1 10) 3
                 (render_start (screen_globals 1 10) (''ab'' @ [CHR 0x09] @ ''c'') initscr)"

definition stray_newline_state :: render_state where
  "stray_newline_state = run utf8_libc opts_default (screen_globals 2 3) 6
      (render_start (screen_globals 2 3) (''abc'' @ [CHR 0x0A] @ ''d'') initscr)"

definition newline_state :: render_state where
  "newline_state = run utf8_libc opts_default (screen_globals 2 3) 2
      (render_start (screen_globals 2 3) (''a'' @ [CHR 0x0A] @ ''b'') initscr)"

text \<open>
  The options of \<^verbatim>\<open>watch -c -d=cumulative\<close>, and the window a first render of a bold \<^verbatim>\<open>A\<close>
  leaves on a screen of one cell.
\<close>

definition opts_cumulative_color :: options where
  "opts_cumulative_color =
     opts_default\<lparr>option_differences := True, option_differences_cumulative := True,
                  option_color := True\<rparr>"

definition bold_window :: window where
  "bold_window = win (run utf8_libc opts_cumulative_color (screen_globals 1 1) 5
                        (render_start (screen_globals 1 1) (CHR 0x1B # ''[1mA'') initscr))"

subsection \<open>Properties of the render loop\<close>

lemma c_rem_mod: "0 \<le> a \<Longrightarrow> 0 < b \<Longrightarrow> c_rem a b = a mod b"
  by (cases "a = 0") (simp_all add: c_rem_def minus_mult_div_eq_mod)

lemma set_ansi_attribute_window:
  "cells (set_ansi_attribute a w) = cells w \<and>
   (standout (wattr (set_ansi_attribute a w)) \<longrightarrow> standout (wattr w))"
  by (simp add: set_ansi_attribute_def curs_standend_def curs_attrset_def curs_color_set_def
      A_NORMAL_def A_BOLD_def)

lemma ansi_apply_window:
  "cells (ansi_apply buf w) = cells w \<and>
   (standout (wattr (ansi_apply buf w)) \<longrightarrow> standout (wattr w))"
proof -
  obtain v1 n1 where "strtol (cstring buf) 10 = (v1, n1)"
    by (cases "strtol (cstring buf) 10")
  then have "\<exists>a b. ansi_apply buf w = set_ansi_attribute a (set_ansi_attribute b w)"
    by (simp add: ansi_apply_def Let_def) blast
  then obtain a b where "ansi_apply buf w = set_ansi_attribute a (set_ansi_attribute b w)"
    by blast
  then show ?thesis
    using set_ansi_attribute_window [of a "set_ansi_attribute b w"]
      set_ansi_attribute_window [of b w] by simp
qed

lemma process_ansi_window:
  assumes "process_ansi lc s w = (s2, w2)"
  shows "cells w2 = cells w \<and> (standout (wattr w2) \<longrightarrow> standout (wattr w))"
proof -
  obtain c s1 where g: "getc s = (c, s1)" by (cases "getc s")
  show ?thesis
  proof (cases "c \<noteq> uchar (CHR ''['')")
    case True
    with assms g show ?thesis by (simp add: process_ansi_def)
  next
    case False
    with assms g have "w2 = w \<or> (\<exists>buf. w2 = ansi_apply buf w)"
      by (auto simp: process_ansi_def split: ansi_scan.splits)
    then show ?thesis using ansi_apply_window by auto
  qed
qed

text \<open>The facts about one painted cell.\<close>

lemma paint_fields:
  "pc (paint lc opts g c st) = pc st \<and> row_y (paint lc opts g c st) = row_y st \<and>
   oldeolseen (paint lc opts g c st) = oldeolseen st \<and> eolseen (paint lc opts g c st) = eolseen st \<and>
   tabpending (paint lc opts g c st) = tabpending st \<and> carry (paint lc opts g c st) = carry st \<and>
   fp (paint lc opts g c st) = fp st \<and>
   emitted (paint lc opts g c st) =
     emitted st @ [\<lparr>wy = row_y st, wx = col_x st, wc = c,
                    highlight = diff_attr opts g c (mv_in_wch (win st) (row_y st) (col_x st))\<rparr>]"
  by (simp add: paint_def continue_x_def Let_def)

lemma paint_col:
  "col_x (paint lc opts g c st) =
     col_x st + 1 + (if wcwidth lc c = 2 then 1 else 0) - (if wcwidth lc c = 0 then 1 else 0)"
  by (simp add: paint_def continue_x_def Let_def)

lemma paint_win:
  "wattr (win (paint lc opts g c st)) =
     (if diff_attr opts g c (mv_in_wch (win st) (row_y st) (col_x st)) then A_NORMAL
      else wattr (win st)) \<and>
   cells (win (paint lc opts g c st)) =
     (cells (win st))((row_y st, col_x st) :=
        \<lparr>chars0 = c,
         cattr = (if diff_attr opts g c (mv_in_wch (win st) (row_y st) (col_x st))
                  then A_STANDOUT else wattr (win st))\<rparr>)"
  by (simp add: paint_def continue_x_def Let_def curs_standout_def curs_standend_def
      mv_addnwstr_def)

text \<open>What one pass through the body of the inner loop can be.\<close>

lemma inner_body_cases:
  obtains
    (ansi) s1 s2 w2 where "process_ansi lc s1 (win st) = (s2, w2)"
      "inner_body lc opts g st = st\<lparr>carry := WEOF, fp := s2, win := w2\<rparr>"
      "option_color opts"
  | (skip_nl) s1 where "inner_body lc opts g st = st\<lparr>carry := WEOF, fp := s1, col_x := 0\<rparr>"
  | (carried) c st2 where
      "inner_body lc opts g st = st2\<lparr>row_y := row_y st2 + 1, col_x := 0, carry := c\<rparr>"
      "win st2 = win st" "emitted st2 = emitted st" "pc st2 = pc st" "row_y st2 = row_y st"
  | (painted) c st3 where "inner_body lc opts g st = paint lc opts g c st3"
      "win st3 = win st" "emitted st3 = emitted st" "row_y st3 = row_y st"
      "col_x st3 = col_x st" "pc st3 = pc st"
proof (cases "eolseen st")
  case True
  then have "inner_body lc opts g st = paint lc opts g 32 st" by (simp add: inner_body_def)
  then show ?thesis using painted by blast
next
  case ne: False
  define rd where "rd = read_loop lc opts (carry st) (fp st)"
  define c where "c = (if \<not> tabpending st then fst rd else 32)"
  define st1 where "st1 = (if \<not> tabpending st then st\<lparr>carry := WEOF, fp := snd rd\<rparr> else st)"
  have st1: "win st1 = win st" "emitted st1 = emitted st" "row_y st1 = row_y st"
    "col_x st1 = col_x st" "pc st1 = pc st"
    by (simp_all add: st1_def)
  define st2 where "st2 = (if c = 10 then st1\<lparr>eolseen := True\<rparr>
                          else if c = 9 then st1\<lparr>tabpending := True\<rparr> else st1)"
  have st2: "win st2 = win st" "emitted st2 = emitted st" "row_y st2 = row_y st"
    "col_x st2 = col_x st" "pc st2 = pc st"
    using st1 by (simp_all add: st2_def)
  define st3 where "st3 = (if tabpending st2 \<and> c_rem (col_x st2 + 1) 8 = 0
                                then st2\<lparr>tabpending := False\<rparr> else st2)"
  have st3: "win st3 = win st" "emitted st3 = emitted st" "row_y st3 = row_y st"
    "col_x st3 = col_x st" "pc st3 = pc st"
    using st2 by (simp_all add: st3_def)
  have body: "inner_body lc opts g st =
      (if c = 27 \<and> option_color opts then
              (let (s2, w2) = process_ansi lc (fp st1) (win st1)
               in continue_x (st1\<lparr>col_x := col_x st1 - 1, fp := s2, win := w2\<rparr>))
            else if c = 10 \<and> \<not> oldeolseen st1 \<and> col_x st1 = 0 then
              continue_x (st1\<lparr>col_x := -1\<rparr>)
            else if col_x st2 = width g - 1 \<and> wcwidth lc c = 2 then
                    continue_x (st2\<lparr>row_y := row_y st2 + 1, col_x := -1, carry := c\<rparr>)
            else paint lc opts g (if c = WEOF \<or> c = 10 \<or> c = 9 then 32 else c) st3)"
  proof (cases "tabpending st")
    case True
    then have e: "c = 32" "st1 = st" by (simp_all add: c_def st1_def)
    show ?thesis
      unfolding inner_body_def st2_def st3_def e using ne True by (simp add: Let_def)
  next
    case False
    obtain c0 s0 where r: "read_loop lc opts (carry st) (fp st) = (c0, s0)"
      by (cases "read_loop lc opts (carry st) (fp st)")
    with False have e: "c = c0" "st1 = st\<lparr>carry := WEOF, fp := s0\<rparr>"
      by (simp_all add: c_def st1_def rd_def)
    show ?thesis
      unfolding inner_body_def st2_def st3_def e using ne False r by (simp add: Let_def)
  qed
  show ?thesis
  proof (cases "c = 27 \<and> option_color opts")
    case True
    then have nt: "\<not> tabpending st" by (auto simp: c_def split: if_splits)
    then have s1: "st1 = st\<lparr>carry := WEOF, fp := snd rd\<rparr>" by (simp add: st1_def)
    obtain s2 w2 where r: "process_ansi lc (fp st1) (win st1) = (s2, w2)"
      by (cases "process_ansi lc (fp st1) (win st1)")
    from r s1 have p: "process_ansi lc (snd rd) (win st) = (s2, w2)" by simp
    from body True r s1 have "inner_body lc opts g st = st\<lparr>carry := WEOF, fp := s2, win := w2\<rparr>"
      by (simp add: continue_x_def)
    with p True show ?thesis using ansi by blast
  next
    case nansi: False
    show ?thesis
    proof (cases "c = 10 \<and> \<not> oldeolseen st1 \<and> col_x st1 = 0")
      case True
      then have nt: "\<not> tabpending st" by (auto simp: c_def split: if_splits)
      then have s1: "st1 = st\<lparr>carry := WEOF, fp := snd rd\<rparr>" by (simp add: st1_def)
      from body nansi True s1 have "inner_body lc opts g st =
          st\<lparr>carry := WEOF, fp := snd rd, col_x := 0\<rparr>"
        by (simp add: continue_x_def)
      then show ?thesis using skip_nl by blast
    next
      case nskip: False
      show ?thesis
      proof (cases "col_x st2 = width g - 1 \<and> wcwidth lc c = 2")
        case True
        with body nansi nskip have "inner_body lc opts g st =
            st2\<lparr>row_y := row_y st2 + 1, col_x := 0, carry := c\<rparr>"
          by (simp add: continue_x_def)
        with st2 show ?thesis using carried by blast
      next
        case False
        with body nansi nskip have "inner_body lc opts g st =
            paint lc opts g (if c = WEOF \<or> c = 10 \<or> c = 9 then 32 else c) st3"
          by simp
        with st3 show ?thesis using painted by blast
      qed
    qed
  qed
qed


lemma step_cases:
  obtains
    (unchanged) "win (step lc opts g st) = win st" "emitted (step lc opts g st) = emitted st"
  | (escape) s1 s2 w2 where "process_ansi lc s1 (win st) = (s2, w2)"
      "win (step lc opts g st) = w2" "emitted (step lc opts g st) = emitted st"
      "option_color opts"
  | (cell) c st3 where "step lc opts g st = paint lc opts g c st3"
      "win st3 = win st" "emitted st3 = emitted st" "row_y st3 = row_y st"
      "col_x st3 = col_x st" "pc st = Inner_test" "col_x st < width g"
proof (cases "pc st = Inner_test \<and> col_x st < width g")
  case False
  then have "win (step lc opts g st) = win st \<and> emitted (step lc opts g st) = emitted st"
    by (cases "pc st") (auto simp: step_def)
  then show ?thesis using unchanged by blast
next
  case True
  then have s: "step lc opts g st = inner_body lc opts g st" by (simp add: step_def)
  show ?thesis
  proof (cases rule: inner_body_cases [where lc = lc and opts = opts and g = g and st = st])
    case (ansi s1 s2 w2)
    with s show ?thesis using escape [of s1 s2 w2] by simp
  next
    case (skip_nl s1)
    with s show ?thesis using unchanged by simp
  next
    case (carried c st2)
    with s show ?thesis using unchanged by simp
  next
    case (painted c st3)
    with s True show ?thesis using cell [of c st3] by simp
  qed
qed

text \<open>
  Outside the three lines that paint a highlighted cell the window's attributes never hold
  standout: no step switches it on and leaves it on.
\<close>

lemma step_wattr_plain:
  assumes "\<not> standout (wattr (win st))"
  shows "\<not> standout (wattr (win (step lc opts g st)))"
proof (cases rule: step_cases [where lc = lc and opts = opts and g = g and st = st])
  case unchanged
  with assms show ?thesis by simp
next
  case (escape s1 s2 w2)
  with assms process_ansi_window [OF escape(1)] show ?thesis by simp
next
  case (cell c st3)
  with assms paint_win [of lc opts g c st3] show ?thesis by (simp add: A_NORMAL_def)
qed

lemma step_first_screen:
  assumes "first_screen g" and "\<not> standout (wattr (win st))"
  shows "(\<exists>es. emitted (step lc opts g st) = emitted st @ es \<and> list_all (\<lambda>e. \<not> highlight e) es) \<and>
         (\<forall>p. standout (cattr (cells (win (step lc opts g st)) p)) \<longrightarrow>
              standout (cattr (cells (win st) p)))"
proof (cases rule: step_cases [where lc = lc and opts = opts and g = g and st = st])
  case unchanged
  then show ?thesis by simp
next
  case (escape s1 s2 w2)
  with process_ansi_window [OF escape(1)] show ?thesis by simp
next
  case (cell c st3)
  have na: "\<And>oldc. \<not> diff_attr opts g c oldc" using assms(1) by (simp add: diff_attr_def)
  from cell paint_fields [of lc opts g c st3] na
  have "emitted (step lc opts g st) =
          emitted st @ [\<lparr>wy = row_y st, wx = col_x st, wc = c, highlight = False\<rparr>]"
    by simp
  moreover from cell paint_win [of lc opts g c st3] na assms(2)
  have "\<forall>p. standout (cattr (cells (win (step lc opts g st)) p)) \<longrightarrow>
              standout (cattr (cells (win st) p))"
    by simp
  ultimately show ?thesis by simp
qed

lemma run_first_screen:
  assumes "first_screen g" and "\<not> standout (wattr (win st))"
    and "list_all (\<lambda>e. \<not> highlight e) (emitted st)"
  shows "list_all (\<lambda>e. \<not> highlight e) (emitted (run lc opts g n st)) \<and>
         (\<forall>p. standout (cattr (cells (win (run lc opts g n st)) p)) \<longrightarrow>
              standout (cattr (cells (win st) p)))"
  using assms(2,3)
proof (induction n arbitrary: st)
  case 0
  then show ?case by simp
next
  case (Suc n)
  from step_first_screen [OF assms(1) Suc.prems(1), of lc opts]
  obtain es where es: "emitted (step lc opts g st) = emitted st @ es"
      "list_all (\<lambda>e. \<not> highlight e) es"
    and cs: "\<forall>p. standout (cattr (cells (win (step lc opts g st)) p)) \<longrightarrow>
              standout (cattr (cells (win st) p))"
    by blast
  have "list_all (\<lambda>e. \<not> highlight e) (emitted (step lc opts g st))"
    using es Suc.prems(2) by simp
  from Suc.IH [OF step_wattr_plain [OF Suc.prems(1)] this] cs
  show ?case by simp
qed

text \<open>
  Claim C2. A cycle that starts with \<^verbatim>\<open>first_screen\<close> set (the program starts with it set) or
  with a resize pending enters the loops with \<^verbatim>\<open>first_screen\<close> set: the resize branch sets it
  and clears the screen. Then, for every locale, every option, every input stream and every
  number of steps of the loops, every cell painted so far has its highlight flag \<^verbatim>\<open>attr\<close>
  false, and no cell of the screen has gained standout: one that shows it already showed it
  before the cycle, and there was no resize. No stream is left out: the loops are total,
  an escape sequence without its \<^verbatim>\<open>m\<close> is processed like any other (for every content of the
  memory behind the buffer) and the painting goes on after it. The hypothesis on the window,
  that its current attributes do not hold standout, is true of \<open>initscr\<close> and is kept by
  every step (\<open>step_wattr_plain\<close>).
\<close>

theorem first_render_no_highlight:
  assumes "first_screen g \<or> screen_size_changed g"
    and "cycle_entry io g w = (g', w')"
    and "\<not> standout (wattr w)"
  shows "first_screen g' \<and>
         list_all (\<lambda>e. \<not> highlight e) (emitted (run lc opts g' n (render_start g' s w'))) \<and>
         (\<forall>p. standout (cattr (cells (win (run lc opts g' n (render_start g' s w'))) p)) \<longrightarrow>
              standout (cattr (cells w p)) \<and> \<not> screen_size_changed g)"
proof -
  have f: "first_screen g'"
    using assms(1,2) by (auto simp: cycle_entry_def split: if_splits)
  have w': "\<not> standout (wattr w')"
    using assms(2,3) by (auto simp: cycle_entry_def curs_clear_def split: if_splits)
  have c: "\<And>p. standout (cattr (cells w' p)) \<Longrightarrow>
              standout (cattr (cells w p)) \<and> \<not> screen_size_changed g"
    using assms(2)
    by (auto simp: cycle_entry_def curs_clear_def blank_cell_def A_NORMAL_def split: if_splits)
  have r: "list_all (\<lambda>e. \<not> highlight e) (emitted (run lc opts g' n (render_start g' s w'))) \<and>
         (\<forall>p. standout (cattr (cells (win (run lc opts g' n (render_start g' s w'))) p)) \<longrightarrow>
              standout (cattr (cells (win (render_start g' s w')) p)))"
    using w' by (intro run_first_screen [OF f]) (simp_all add: render_start_def)
  have w: "win (render_start g' s w') = w'" by (simp add: render_start_def)
  from r w c have "\<forall>p. standout (cattr (cells (win (run lc opts g' n (render_start g' s w'))) p)) \<longrightarrow>
              standout (cattr (cells w p)) \<and> \<not> screen_size_changed g"
    by metis
  with f r show ?thesis by blast
qed


theorem first_render_no_highlight_witness:
  "view (run utf8_libc opts_diff (screen_globals 1 4) 7
           (render_start (screen_globals 1 4) ''hi'' initscr)) =
     (Finished, [(0, 0, 104, False), (0, 1, 105, False), (0, 2, 32, False), (0, 3, 32, False)]) \<and>
   list_all (\<lambda>e. \<not> highlight e)
     (emitted (run utf8_libc opts_diff (screen_globals 1 4) 7
                 (render_start (screen_globals 1 4) ''hi'' initscr))) \<and>
   view (run utf8_libc opts_diff (fst (cycle_entry (Some (1, 4)) resized_globals hi_window)) 7
           (render_start (fst (cycle_entry (Some (1, 4)) resized_globals hi_window)) ''ho''
              (snd (cycle_entry (Some (1, 4)) resized_globals hi_window)))) =
     (Finished, [(0, 0, 104, False), (0, 1, 111, False), (0, 2, 32, False), (0, 3, 32, False)]) \<and>
   list_all (\<lambda>e. \<not> highlight e)
     (emitted (run utf8_libc opts_diff (fst (cycle_entry (Some (1, 4)) resized_globals hi_window)) 7
           (render_start (fst (cycle_entry (Some (1, 4)) resized_globals hi_window)) ''ho''
              (snd (cycle_entry (Some (1, 4)) resized_globals hi_window))))) \<and>
   view (run utf8_libc opts_cumulative_color (screen_globals 1 4) 8
           (render_start (screen_globals 1 4) (CHR 0x1B # ''[1'') initscr)) =
     (Finished, [(0, 0, 32, False), (0, 1, 32, False), (0, 2, 32, False), (0, 3, 32, False)]) \<and>
   list_all (\<lambda>e. \<not> highlight e)
     (emitted (run utf8_libc opts_cumulative_color (screen_globals 1 4) 8
                 (render_start (screen_globals 1 4) (CHR 0x1B # ''[1'') initscr)))"
proof (intro conjI)
  show "view (run utf8_libc opts_diff (screen_globals 1 4) 7
           (render_start (screen_globals 1 4) ''hi'' initscr)) =
     (Finished, [(0, 0, 104, False), (0, 1, 105, False), (0, 2, 32, False), (0, 3, 32, False)])"
    by code_simp
  have e: "cycle_entry None (screen_globals 1 4) initscr = (screen_globals 1 4, initscr)"
    by (simp add: cycle_entry_def screen_globals_def initial_globals_def)
  have f: "first_screen (screen_globals 1 4) \<or> screen_size_changed (screen_globals 1 4)"
    by (simp add: screen_globals_def initial_globals_def)
  have p: "\<not> standout (wattr initscr)" by (simp add: initscr_def A_NORMAL_def)
  show "list_all (\<lambda>e. \<not> highlight e)
     (emitted (run utf8_libc opts_diff (screen_globals 1 4) 7
                 (render_start (screen_globals 1 4) ''hi'' initscr)))"
    using first_render_no_highlight [OF f e p] by blast
  show "view (run utf8_libc opts_diff (fst (cycle_entry (Some (1, 4)) resized_globals hi_window)) 7
           (render_start (fst (cycle_entry (Some (1, 4)) resized_globals hi_window)) ''ho''
              (snd (cycle_entry (Some (1, 4)) resized_globals hi_window)))) =
     (Finished, [(0, 0, 104, False), (0, 1, 111, False), (0, 2, 32, False), (0, 3, 32, False)])"
    by code_simp
  have e': "cycle_entry (Some (1, 4)) resized_globals hi_window =
      (fst (cycle_entry (Some (1, 4)) resized_globals hi_window),
       snd (cycle_entry (Some (1, 4)) resized_globals hi_window))"
    by simp
  have f': "first_screen resized_globals \<or> screen_size_changed resized_globals"
    by (simp add: resized_globals_def)
  have p': "\<not> standout (wattr hi_window)" by code_simp
  show "list_all (\<lambda>e. \<not> highlight e)
     (emitted (run utf8_libc opts_diff (fst (cycle_entry (Some (1, 4)) resized_globals hi_window)) 7
           (render_start (fst (cycle_entry (Some (1, 4)) resized_globals hi_window)) ''ho''
              (snd (cycle_entry (Some (1, 4)) resized_globals hi_window)))))"
    using first_render_no_highlight [OF f' e' p'] by blast
  show "view (run utf8_libc opts_cumulative_color (screen_globals 1 4) 8
           (render_start (screen_globals 1 4) (CHR 0x1B # ''[1'') initscr)) =
     (Finished, [(0, 0, 32, False), (0, 1, 32, False), (0, 2, 32, False), (0, 3, 32, False)])"
    by code_simp
  show "list_all (\<lambda>e. \<not> highlight e)
     (emitted (run utf8_libc opts_cumulative_color (screen_globals 1 4) 8
                 (render_start (screen_globals 1 4) (CHR 0x1B # ''[1'') initscr)))"
    using first_render_no_highlight [OF f e p] by blast
qed

subsection \<open>Positions and the cumulative highlight flag\<close>

text \<open>Columns: the loop never leaves the row to the left, and paints inside the row.\<close>

lemma step_position:
  assumes "pc st = Inner_test \<longrightarrow> 0 \<le> col_x st" and "show_title g \<le> row_y st"
  shows "(pc (step lc opts g st) = Inner_test \<longrightarrow> 0 \<le> col_x (step lc opts g st)) \<and>
         show_title g \<le> row_y (step lc opts g st)"
proof (cases "pc st")
  case Outer_test
  with assms show ?thesis by (simp add: step_def)
next
  case Finished
  with assms show ?thesis by (simp add: step_def)
next
  case Inner_test
  show ?thesis
  proof (cases "col_x st < width g")
    case False
    with Inner_test assms show ?thesis by (simp add: step_def)
  next
    case True
    with Inner_test have s: "step lc opts g st = inner_body lc opts g st"
      by (simp add: step_def)
    show ?thesis
    proof (cases rule: inner_body_cases [where lc = lc and opts = opts and g = g and st = st])
      case (ansi s1 s2 w2)
      with s assms Inner_test show ?thesis by simp
    next
      case (skip_nl s1)
      with s assms show ?thesis by simp
    next
      case (carried c st2)
      with s assms show ?thesis by simp
    next
      case (painted c st3)
      with s assms Inner_test paint_fields [of lc opts g c st3] paint_col [of lc opts g c st3]
      show ?thesis by simp
    qed
  qed
qed

lemma step_emitted_position:
  assumes "pc st = Inner_test \<longrightarrow> 0 \<le> col_x st" and "show_title g \<le> row_y st"
  shows "\<exists>es. emitted (step lc opts g st) = emitted st @ es \<and>
           list_all (\<lambda>e. 0 \<le> wx e \<and> wx e < width g \<and> show_title g \<le> wy e) es"
proof (cases rule: step_cases [where lc = lc and opts = opts and g = g and st = st])
  case unchanged
  then show ?thesis by simp
next
  case (escape s1 s2 w2)
  then show ?thesis by simp
next
  case (cell c st3)
  with assms paint_fields [of lc opts g c st3] show ?thesis by simp
qed

lemma run_emitted_position:
  assumes "pc st = Inner_test \<longrightarrow> 0 \<le> col_x st" and "show_title g \<le> row_y st"
    and "list_all (\<lambda>e. 0 \<le> wx e \<and> wx e < width g \<and> show_title g \<le> wy e) (emitted st)"
  shows "list_all (\<lambda>e. 0 \<le> wx e \<and> wx e < width g \<and> show_title g \<le> wy e)
           (emitted (run lc opts g n st))"
  using assms
proof (induction n arbitrary: st)
  case 0
  then show ?case by simp
next
  case (Suc n)
  from step_emitted_position [OF Suc.prems(1,2), of lc opts]
  obtain es where es: "emitted (step lc opts g st) = emitted st @ es"
    "list_all (\<lambda>e. 0 \<le> wx e \<and> wx e < width g \<and> show_title g \<le> wy e) es" by blast
  have "list_all (\<lambda>e. 0 \<le> wx e \<and> wx e < width g \<and> show_title g \<le> wy e)
          (emitted (step lc opts g st))"
    using es Suc.prems(3) by simp
  with Suc.IH [of "step lc opts g st"] step_position [OF Suc.prems(1,2), of lc opts]
  show ?case by simp
qed

text \<open>
  Every cell a render paints lies in a column of the grid and in no row above the first row
  of the layout. Nothing bounds its row from below.
\<close>

lemma render_columns_in_range:
  "list_all (\<lambda>e. 0 \<le> wx e \<and> wx e < width g \<and> show_title g \<le> wy e)
     (emitted (run lc opts g n (render_start g s w)))"
  by (rule run_emitted_position) (simp_all add: render_start_def)

text \<open>
  The highlight flag in cumulative mode after the first render: the character differs from
  the one \<^verbatim>\<open>in_wch\<close> read, or the cell read holds any attribute.
\<close>

lemma diff_attr_cumulative:
  assumes "option_differences opts" "option_differences_cumulative opts" "\<not> first_screen g"
  shows "diff_attr opts g c oldc = (c \<noteq> chars0 oldc \<or> has_attributes (cattr oldc))"
  using assms by (simp add: diff_attr_def)

subsection \<open>Tabs and newlines\<close>

lemma painted_paint:
  "painted (paint lc opts g c st) = painted st @ [(row_y st, col_x st, c)]"
  by (simp add: painted_def paint_fields)

lemma step_blank:
  assumes "pc st = Inner_test" "0 \<le> col_x st" "col_x st < width g"
    and "eolseen st \<or> tabpending st" and "wcwidth lc 32 = 1"
  shows "step lc opts g st =
           paint lc opts g 32
             (if \<not> eolseen st \<and> (col_x st + 1) mod 8 = 0 then st\<lparr>tabpending := False\<rparr> else st)"
proof (cases "eolseen st")
  case True
  with assms show ?thesis by (simp add: step_def inner_body_def)
next
  case False
  with assms have t: "tabpending st" by simp
  have "c_rem (col_x st + 1) 8 = (col_x st + 1) mod 8"
    using assms(2) by (intro c_rem_mod) simp_all
  with assms False t show ?thesis
    by (simp add: step_def inner_body_def Let_def WEOF_def)
qed

lemma step_blank_fields:
  assumes "pc st = Inner_test" "0 \<le> col_x st" "col_x st < width g"
    and "eolseen st \<or> tabpending st" and "wcwidth lc 32 = 1"
  shows "pc (step lc opts g st) = Inner_test" "row_y (step lc opts g st) = row_y st"
    "col_x (step lc opts g st) = col_x st + 1" "fp (step lc opts g st) = fp st"
    "carry (step lc opts g st) = carry st" "eolseen (step lc opts g st) = eolseen st"
    "oldeolseen (step lc opts g st) = oldeolseen st"
    "painted (step lc opts g st) = painted st @ [(row_y st, col_x st, 32)]"
    "tabpending (step lc opts g st) =
       (if \<not> eolseen st \<and> (col_x st + 1) mod 8 = 0 then False else tabpending st)"
  using assms(1,5)
  by (simp_all add: step_blank [OF assms] paint_fields paint_col painted_paint painted_def)

lemma map_upt_Suc_shift: "map f [0..<Suc n] = f 0 # map (\<lambda>j. f (Suc j)) [0..<n]"
  by (simp only: upt_conv_Cons [of 0 "Suc n"] map_Suc_upt [symmetric] list.map map_map o_def)

lemma blank_run:
  assumes "pc st = Inner_test" "0 \<le> col_x st" "wcwidth lc 32 = 1"
    and "int n \<le> width g - col_x st"
    and "0 < n \<Longrightarrow> eolseen st \<or> tabpending st"
    and "\<not> eolseen st \<Longrightarrow> int n \<le> 8 - col_x st mod 8"
  shows "pc (run lc opts g n st) = Inner_test \<and> row_y (run lc opts g n st) = row_y st \<and>
         col_x (run lc opts g n st) = col_x st + int n \<and> fp (run lc opts g n st) = fp st \<and>
         carry (run lc opts g n st) = carry st \<and> eolseen (run lc opts g n st) = eolseen st \<and>
         oldeolseen (run lc opts g n st) = oldeolseen st \<and>
         painted (run lc opts g n st) =
           painted st @ map (\<lambda>j. (row_y st, col_x st + int j, 32)) [0..<n] \<and>
         tabpending (run lc opts g n st) =
           (if n = 0 \<or> eolseen st then tabpending st else (col_x st + int n) mod 8 \<noteq> 0)"
  using assms(1,2,4,5,6)
proof (induction n arbitrary: st)
  case 0
  then show ?case by simp
next
  case (Suc n)
  let ?s = "step lc opts g st"
  have x: "col_x st < width g" using Suc.prems(3) by simp
  have m: "eolseen st \<or> tabpending st" using Suc.prems(4) by simp
  note f = step_blank_fields [OF Suc.prems(1,2) x m assms(3), of opts]
  have p1: "pc ?s = Inner_test" and p2: "0 \<le> col_x ?s" and p3: "int n \<le> width g - col_x ?s"
    using f Suc.prems(2,3) by simp_all
  have p4: "0 < n \<Longrightarrow> eolseen ?s \<or> tabpending ?s"
  proof -
    assume n: "0 < n"
    show ?thesis
    proof (cases "eolseen st")
      case True
      then show ?thesis using f by simp
    next
      case False
      then have "int (Suc n) \<le> 8 - col_x st mod 8" by (rule Suc.prems(5))
      with n have "(col_x st + 1) mod 8 \<noteq> 0" by presburger
      with False m show ?thesis using f by simp
    qed
  qed
  have p5: "\<not> eolseen ?s \<Longrightarrow> int n \<le> 8 - col_x ?s mod 8"
  proof -
    assume "\<not> eolseen ?s"
    then have "\<not> eolseen st" using f by simp
    then have "int (Suc n) \<le> 8 - col_x st mod 8" by (rule Suc.prems(5))
    then have "int n \<le> 8 - (col_x st + 1) mod 8" by presburger
    then show ?thesis using f by simp
  qed
  note ih = Suc.IH [OF p1 p2 p3 p4 p5]
  have pt: "painted (run lc opts g (Suc n) st) =
      painted st @ map (\<lambda>j. (row_y st, col_x st + int j, 32)) [0..<Suc n]"
  proof -
    have "painted (run lc opts g (Suc n) st) =
        (painted st @ [(row_y st, col_x st, 32)]) @
          map (\<lambda>j. (row_y st, col_x st + 1 + int j, 32)) [0..<n]"
      using ih f by simp
    also have "\<dots> = painted st @ map (\<lambda>j. (row_y st, col_x st + int j, 32)) [0..<Suc n]"
      by (simp only: map_upt_Suc_shift [of _ n]) (simp add: add.assoc)
    finally show ?thesis .
  qed
  have tp: "tabpending (run lc opts g (Suc n) st) =
      (if eolseen st then tabpending st else (col_x st + int (Suc n)) mod 8 \<noteq> 0)"
  proof (cases "eolseen st")
    case True
    then show ?thesis using ih f by simp
  next
    case False
    with m have t: "tabpending st" by simp
    show ?thesis
    proof (cases "n = 0")
      case True
      with False t show ?thesis using ih f by simp
    next
      case n: False
      with False show ?thesis using ih f by (simp add: ac_simps)
    qed
  qed
  from ih f pt tp show ?case by simp
qed


lemma run_add: "run lc opts g (m + n) st = run lc opts g n (run lc opts g m st)"
  by (induction m arbitrary: st) simp_all

lemma step_tab:
  assumes "pc st = Inner_test" "0 \<le> col_x st" "col_x st < width g"
    and "\<not> eolseen st" "\<not> tabpending st"
    and "read_loop lc opts (carry st) (fp st) = (9, s1)"
    and "wcwidth lc 9 \<noteq> 2"
  shows "step lc opts g st =
           paint lc opts g 32
             (st\<lparr>carry := WEOF, fp := s1, tabpending := ((col_x st + 1) mod 8 \<noteq> 0)\<rparr>)"
proof -
  have "c_rem (col_x st + 1) 8 = (col_x st + 1) mod 8"
    using assms(2) by (intro c_rem_mod) simp_all
  with assms show ?thesis
    by (simp add: step_def inner_body_def Let_def WEOF_def)
qed

lemma step_newline:
  assumes "pc st = Inner_test" "0 \<le> col_x st" "col_x st < width g"
    and "\<not> eolseen st" "\<not> tabpending st"
    and "read_loop lc opts (carry st) (fp st) = (10, s1)"
    and "wcwidth lc 10 \<noteq> 2"
  shows "step lc opts g st =
           (if \<not> oldeolseen st \<and> col_x st = 0 then st\<lparr>carry := WEOF, fp := s1\<rparr>
            else paint lc opts g 32 (st\<lparr>carry := WEOF, fp := s1, eolseen := True\<rparr>))"
proof (cases "\<not> oldeolseen st \<and> col_x st = 0")
  case True
  with assms have "step lc opts g st = st\<lparr>carry := WEOF, fp := s1, col_x := 0\<rparr>"
    by (simp add: step_def inner_body_def Let_def continue_x_def)
  also have "\<dots> = st\<lparr>carry := WEOF, fp := s1\<rparr>"
    using True by (cases st) simp
  finally show ?thesis using True by simp
next
  case False
  with assms show ?thesis
    by (auto simp: step_def inner_body_def Let_def WEOF_def)
qed

lemma row_end:
  assumes "pc st = Inner_test" "col_x st = width g"
  shows "step lc opts g st = st\<lparr>pc := Outer_test, oldeolseen := eolseen st, row_y := row_y st + 1\<rparr>"
    and "pc (run lc opts g 2 st) = Finished \<or>
         pc (run lc opts g 2 st) = Inner_test \<and> col_x (run lc opts g 2 st) = 0 \<and>
         \<not> tabpending (run lc opts g 2 st) \<and> \<not> eolseen (run lc opts g 2 st) \<and>
         row_y (run lc opts g 2 st) = row_y st + 1"
    and "painted (run lc opts g 2 st) = painted st" and "fp (run lc opts g 2 st) = fp st"
  using assms by (simp_all add: step_def numeral_2_eq_2 painted_def)

text \<open>
  Claim C7. Let the inner loop stand at a column \<open>x\<close> of the row, with no end of line seen and
  no tab pending, and let the character it reads be a tab. Then the next \<open>n\<close> steps, with \<open>n\<close>
  the distance to the next multiple of 8 or to the end of the row, whichever is nearer,
  paint blanks in the columns \<open>x\<close> to \<open>x + n - 1\<close> of the row and nothing else, and take nothing
  from the stream but the tab. After them the pending flag is set exactly when the column
  is not a multiple of 8, and the column is a multiple of 8 or the end of the row; in the
  latter case the two steps that follow paint nothing, read nothing, and either end the
  render or start the next row at column 0 with the flag cleared. So the next character is
  read at a column that is a multiple of 8. The hypotheses on the locale are that a blank is
  one column wide and a tab is not two columns wide; that \<open>x\<close> is not negative holds at every
  test of the inner loop (\<open>step_position\<close>).
\<close>

theorem tab_expansion:
  assumes "pc st = Inner_test" "0 \<le> col_x st" "col_x st < width g"
    and "\<not> eolseen st" "\<not> tabpending st"
    and "read_loop lc opts (carry st) (fp st) = (9, s1)"
    and "wcwidth lc 32 = 1" "wcwidth lc 9 \<noteq> 2"
    and "int n = min (8 - col_x st mod 8) (width g - col_x st)"
  shows "pc (run lc opts g n st) = Inner_test \<and> row_y (run lc opts g n st) = row_y st \<and>
         col_x (run lc opts g n st) = col_x st + int n \<and> fp (run lc opts g n st) = s1 \<and>
         \<not> eolseen (run lc opts g n st) \<and>
         painted (run lc opts g n st) =
           painted st @ map (\<lambda>j. (row_y st, col_x st + int j, 32)) [0..<n] \<and>
         (tabpending (run lc opts g n st) \<longleftrightarrow> col_x (run lc opts g n st) mod 8 \<noteq> 0) \<and>
         (col_x (run lc opts g n st) mod 8 = 0 \<or> col_x (run lc opts g n st) = width g) \<and>
         (col_x (run lc opts g n st) = width g \<longrightarrow>
            painted (run lc opts g (n + 2) st) = painted (run lc opts g n st) \<and>
            fp (run lc opts g (n + 2) st) = s1 \<and>
            (pc (run lc opts g (n + 2) st) = Finished \<or>
             pc (run lc opts g (n + 2) st) = Inner_test \<and>
             col_x (run lc opts g (n + 2) st) = 0 \<and> \<not> tabpending (run lc opts g (n + 2) st)))"
proof -
  obtain m where n: "n = Suc m"
    using assms(2,3,9) by (cases n) (auto simp: min_def split: if_splits)
  let ?t = "st\<lparr>carry := WEOF, fp := s1, tabpending := ((col_x st + 1) mod 8 \<noteq> 0)\<rparr>"
  let ?s = "step lc opts g st"
  have s: "?s = paint lc opts g 32 ?t"
    by (rule step_tab [OF assms(1-6,8)])
  have f: "pc ?s = Inner_test" "row_y ?s = row_y st" "col_x ?s = col_x st + 1" "fp ?s = s1"
    "\<not> eolseen ?s" "tabpending ?s = ((col_x st + 1) mod 8 \<noteq> 0)"
    "painted ?s = painted st @ [(row_y st, col_x st, 32)]"
    using assms(1,4,7) by (simp_all add: s paint_fields paint_col painted_paint painted_def)
  have b1: "0 \<le> col_x ?s" using f assms(2) by simp
  have b2: "int m \<le> width g - col_x ?s" using f assms(9) n by simp
  have b3: "0 < m \<Longrightarrow> eolseen ?s \<or> tabpending ?s"
  proof -
    assume "0 < m"
    with assms(9) n have "2 \<le> 8 - col_x st mod 8" by simp
    then have "(col_x st + 1) mod 8 \<noteq> 0" by presburger
    then show ?thesis using f by simp
  qed
  have b4: "\<not> eolseen ?s \<Longrightarrow> int m \<le> 8 - col_x ?s mod 8"
  proof -
    have "int (Suc m) \<le> 8 - col_x st mod 8" using assms(9) n by simp
    then have "int m \<le> 8 - (col_x st + 1) mod 8" by presburger
    then show ?thesis using f by simp
  qed
  note r = blank_run [OF f(1) b1 assms(7) b2 b3 b4, of opts]
  have run: "run lc opts g n st = run lc opts g m ?s" by (simp add: n)
  have pt: "painted (run lc opts g n st) =
      painted st @ map (\<lambda>j. (row_y st, col_x st + int j, 32)) [0..<n]"
  proof -
    have "painted (run lc opts g n st) =
        (painted st @ [(row_y st, col_x st, 32)]) @
          map (\<lambda>j. (row_y st, col_x st + 1 + int j, 32)) [0..<m]"
      using r f run by simp
    also have "\<dots> = painted st @ map (\<lambda>j. (row_y st, col_x st + int j, 32)) [0..<Suc m]"
      by (simp only: map_upt_Suc_shift [of _ m]) (simp add: add.assoc)
    finally show ?thesis by (simp only: n)
  qed
  have cx: "col_x (run lc opts g n st) = col_x st + int n"
    using r f run n by simp
  have tp: "tabpending (run lc opts g n st) \<longleftrightarrow> (col_x st + int n) mod 8 \<noteq> 0"
  proof (cases "m = 0")
    case True
    with r f run n show ?thesis by simp
  next
    case False
    with r f run n show ?thesis by (simp add: ac_simps)
  qed
  have stop: "(col_x st + int n) mod 8 = 0 \<or> col_x st + int n = width g"
    using assms(2,9) by (simp add: min_def split: if_splits) presburger
  have basic: "pc (run lc opts g n st) = Inner_test" "row_y (run lc opts g n st) = row_y st"
    "fp (run lc opts g n st) = s1" "\<not> eolseen (run lc opts g n st)"
    using r f run by simp_all
  have after: "col_x (run lc opts g n st) = width g \<longrightarrow>
            painted (run lc opts g (n + 2) st) = painted (run lc opts g n st) \<and>
            fp (run lc opts g (n + 2) st) = s1 \<and>
            (pc (run lc opts g (n + 2) st) = Finished \<or>
             pc (run lc opts g (n + 2) st) = Inner_test \<and>
             col_x (run lc opts g (n + 2) st) = 0 \<and> \<not> tabpending (run lc opts g (n + 2) st))"
  proof
    assume w: "col_x (run lc opts g n st) = width g"
    note e = row_end [OF basic(1) w, of lc opts]
    show "painted (run lc opts g (n + 2) st) = painted (run lc opts g n st) \<and>
            fp (run lc opts g (n + 2) st) = s1 \<and>
            (pc (run lc opts g (n + 2) st) = Finished \<or>
             pc (run lc opts g (n + 2) st) = Inner_test \<and>
             col_x (run lc opts g (n + 2) st) = 0 \<and> \<not> tabpending (run lc opts g (n + 2) st))"
      using e(2,3,4) basic(3) unfolding run_add by blast
  qed
  show ?thesis
    using basic pt cx tp stop after by simp
qed


theorem tab_expansion_witness:
  "col_x tab_state = 2 \<and>
   col_x (run utf8_libc opts_default (screen_globals 1 10) 6 tab_state) = 8 \<and>
   \<not> tabpending (run utf8_libc opts_default (screen_globals 1 10) 6 tab_state) \<and>
   fp (run utf8_libc opts_default (screen_globals 1 10) 6 tab_state) = ''c'' \<and>
   painted (run utf8_libc opts_default (screen_globals 1 10) 6 tab_state) =
     [(0, 0, 97), (0, 1, 98), (0, 2, 32), (0, 3, 32), (0, 4, 32), (0, 5, 32), (0, 6, 32), (0, 7, 32)] \<and>
   painted (run utf8_libc opts_default (screen_globals 1 10) 7 tab_state) =
     [(0, 0, 97), (0, 1, 98), (0, 2, 32), (0, 3, 32), (0, 4, 32), (0, 5, 32), (0, 6, 32), (0, 7, 32),
      (0, 8, 99)]"
proof -
  have h1: "pc tab_state = Inner_test" by code_simp
  have h2: "0 \<le> col_x tab_state" by code_simp
  have h3: "col_x tab_state < width (screen_globals 1 10)" by code_simp
  have h4: "\<not> eolseen tab_state" by code_simp
  have h5: "\<not> tabpending tab_state" by code_simp
  have h6: "read_loop utf8_libc opts_default (carry tab_state) (fp tab_state) = (9, ''c'')"
    by code_simp
  have h7: "wcwidth utf8_libc 32 = 1" by code_simp
  have h8: "wcwidth utf8_libc 9 \<noteq> 2" by code_simp
  have c: "col_x tab_state = 2" by code_simp
  have p: "painted tab_state = [(0, 0, 97), (0, 1, 98)]" by code_simp
  have r: "row_y tab_state = 0" by code_simp
  have h9: "int 6 = min (8 - col_x tab_state mod 8) (width (screen_globals 1 10) - col_x tab_state)"
    by (simp add: c screen_globals_def)
  note t = tab_expansion [OF h1 h2 h3 h4 h5 h6 h7 h8 h9]
  have l: "map (\<lambda>j. (0::int, 2 + int j, 32::int)) [0..<6] =
      [(0, 2, 32), (0, 3, 32), (0, 4, 32), (0, 5, 32), (0, 6, 32), (0, 7, 32)]"
    by (simp add: upt_rec)
  have "painted (run utf8_libc opts_default (screen_globals 1 10) 7 tab_state) =
     [(0, 0, 97), (0, 1, 98), (0, 2, 32), (0, 3, 32), (0, 4, 32), (0, 5, 32), (0, 6, 32), (0, 7, 32),
      (0, 8, 99)]"
    by code_simp
  with t c p r l show ?thesis by simp
qed

text \<open>
  Claim C8. Let the inner loop stand at a column \<open>x\<close> of the row, with no end of line seen and
  no tab pending, and let the character it reads be a newline. If the row before did not
  end in a newline (\<^verbatim>\<open>oldeolseen\<close> is 0, which the end of every row sets from \<^verbatim>\<open>eolseen\<close>; it is
  1 for the first row) and \<open>x\<close> is 0, the step changes nothing but the stream: no cell is
  painted, the column stays 0, the row goes on. Otherwise the remaining \<open>n\<close> columns of the
  row are painted with blanks and nothing else is read, and the row ends with \<^verbatim>\<open>oldeolseen\<close>
  set. The hypotheses on the locale are that a blank is one column wide and a newline is
  not two columns wide.
\<close>

theorem newline_handling:
  assumes "pc st = Inner_test" "0 \<le> col_x st" "col_x st < width g"
    and "\<not> eolseen st" "\<not> tabpending st"
    and "read_loop lc opts (carry st) (fp st) = (10, s1)"
    and "wcwidth lc 32 = 1" "wcwidth lc 10 \<noteq> 2"
    and "int n = width g - col_x st"
  shows "(\<not> oldeolseen st \<and> col_x st = 0 \<longrightarrow>
            step lc opts g st = st\<lparr>carry := WEOF, fp := s1\<rparr>) \<and>
         (oldeolseen st \<or> col_x st \<noteq> 0 \<longrightarrow>
            pc (run lc opts g n st) = Inner_test \<and> eolseen (run lc opts g n st) \<and>
            row_y (run lc opts g n st) = row_y st \<and> col_x (run lc opts g n st) = width g \<and>
            fp (run lc opts g n st) = s1 \<and>
            painted (run lc opts g n st) =
              painted st @ map (\<lambda>j. (row_y st, col_x st + int j, 32)) [0..<n] \<and>
            step lc opts g (run lc opts g n st) =
              (run lc opts g n st)\<lparr>pc := Outer_test, oldeolseen := True, row_y := row_y st + 1\<rparr>)"
proof (cases "\<not> oldeolseen st \<and> col_x st = 0")
  case True
  then show ?thesis using step_newline [OF assms(1-6,8)] by simp
next
  case False
  obtain m where n: "n = Suc m"
    using assms(3,9) by (cases n) auto
  let ?s = "step lc opts g st"
  have s: "?s = paint lc opts g 32 (st\<lparr>carry := WEOF, fp := s1, eolseen := True\<rparr>)"
    using step_newline [OF assms(1-6,8)] False by simp
  have f: "pc ?s = Inner_test" "row_y ?s = row_y st" "col_x ?s = col_x st + 1" "fp ?s = s1"
    "eolseen ?s" "painted ?s = painted st @ [(row_y st, col_x st, 32)]"
    using assms(1,7) by (simp_all add: s paint_fields paint_col painted_paint painted_def)
  have b1: "0 \<le> col_x ?s" using f assms(2) by simp
  have b2: "int m \<le> width g - col_x ?s" using f assms(9) n by simp
  have b3: "0 < m \<Longrightarrow> eolseen ?s \<or> tabpending ?s" using f by simp
  have b4: "\<not> eolseen ?s \<Longrightarrow> int m \<le> 8 - col_x ?s mod 8" using f by simp
  note r = blank_run [OF f(1) b1 assms(7) b2 b3 b4, of opts]
  have run: "run lc opts g n st = run lc opts g m ?s" by (simp add: n)
  have pt: "painted (run lc opts g n st) =
      painted st @ map (\<lambda>j. (row_y st, col_x st + int j, 32)) [0..<n]"
  proof -
    have "painted (run lc opts g n st) =
        (painted st @ [(row_y st, col_x st, 32)]) @
          map (\<lambda>j. (row_y st, col_x st + 1 + int j, 32)) [0..<m]"
      using r f run by simp
    also have "\<dots> = painted st @ map (\<lambda>j. (row_y st, col_x st + int j, 32)) [0..<Suc m]"
      by (simp only: map_upt_Suc_shift [of _ m]) (simp add: add.assoc)
    finally show ?thesis by (simp only: n)
  qed
  have basic: "pc (run lc opts g n st) = Inner_test" "row_y (run lc opts g n st) = row_y st"
    "fp (run lc opts g n st) = s1" "eolseen (run lc opts g n st)"
    "col_x (run lc opts g n st) = width g"
    using r f run n assms(9) by simp_all
  have e: "step lc opts g (run lc opts g n st) =
      (run lc opts g n st)\<lparr>pc := Outer_test, oldeolseen := True, row_y := row_y st + 1\<rparr>"
    using row_end(1) [OF basic(1,5), of lc opts] basic by simp
  from False have a: "\<not> oldeolseen st \<and> col_x st = 0 \<longrightarrow>
      step lc opts g st = st\<lparr>carry := WEOF, fp := s1\<rparr>"
    by blast
  have b: "oldeolseen st \<or> col_x st \<noteq> 0 \<longrightarrow>
            pc (run lc opts g n st) = Inner_test \<and> eolseen (run lc opts g n st) \<and>
            row_y (run lc opts g n st) = row_y st \<and> col_x (run lc opts g n st) = width g \<and>
            fp (run lc opts g n st) = s1 \<and>
            painted (run lc opts g n st) =
              painted st @ map (\<lambda>j. (row_y st, col_x st + int j, 32)) [0..<n] \<and>
            step lc opts g (run lc opts g n st) =
              (run lc opts g n st)\<lparr>pc := Outer_test, oldeolseen := True, row_y := row_y st + 1\<rparr>"
    using basic pt e by simp
  show ?thesis using a b by (rule conjI)
qed

theorem newline_handling_witness:
  "fp (step utf8_libc opts_default (screen_globals 2 3) stray_newline_state) = ''d'' \<and>
   row_y (step utf8_libc opts_default (screen_globals 2 3) stray_newline_state) = 1 \<and>
   col_x (step utf8_libc opts_default (screen_globals 2 3) stray_newline_state) = 0 \<and>
   painted (step utf8_libc opts_default (screen_globals 2 3) stray_newline_state) =
     [(0, 0, 97), (0, 1, 98), (0, 2, 99)] \<and>
   eolseen (run utf8_libc opts_default (screen_globals 2 3) 2 newline_state) \<and>
   fp (run utf8_libc opts_default (screen_globals 2 3) 2 newline_state) = ''b'' \<and>
   painted (run utf8_libc opts_default (screen_globals 2 3) 2 newline_state) =
     [(0, 0, 97), (0, 1, 32), (0, 2, 32)]"
proof -
  have w32: "wcwidth utf8_libc 32 = 1" by code_simp
  have w10: "wcwidth utf8_libc 10 \<noteq> 2" by code_simp
  have a1: "pc stray_newline_state = Inner_test" by code_simp
  have a2: "0 \<le> col_x stray_newline_state" by code_simp
  have a3: "col_x stray_newline_state < width (screen_globals 2 3)" by code_simp
  have a4: "\<not> eolseen stray_newline_state" by code_simp
  have a5: "\<not> tabpending stray_newline_state" by code_simp
  have a6: "read_loop utf8_libc opts_default (carry stray_newline_state) (fp stray_newline_state)
              = (10, ''d'')" by code_simp
  have a7: "\<not> oldeolseen stray_newline_state \<and> col_x stray_newline_state = 0" by code_simp
  have a8: "row_y stray_newline_state = 1" by code_simp
  have a9: "painted stray_newline_state = [(0, 0, 97), (0, 1, 98), (0, 2, 99)]" by code_simp
  have a10: "int 3 = width (screen_globals 2 3) - col_x stray_newline_state"
    using a7 by (simp add: screen_globals_def)
  from newline_handling [OF a1 a2 a3 a4 a5 a6 w32 w10 a10] a7
  have s: "step utf8_libc opts_default (screen_globals 2 3) stray_newline_state =
      stray_newline_state\<lparr>carry := WEOF, fp := ''d''\<rparr>"
    by blast
  have b1: "pc newline_state = Inner_test" by code_simp
  have b2: "0 \<le> col_x newline_state" by code_simp
  have b3: "col_x newline_state < width (screen_globals 2 3)" by code_simp
  have b4: "\<not> eolseen newline_state" by code_simp
  have b5: "\<not> tabpending newline_state" by code_simp
  have b6: "read_loop utf8_libc opts_default (carry newline_state) (fp newline_state) = (10, ''b'')"
    by code_simp
  have b7: "oldeolseen newline_state \<or> col_x newline_state \<noteq> 0" by code_simp
  have b8: "row_y newline_state = 0" "col_x newline_state = 1" by code_simp+
  have b9: "painted newline_state = [(0, 0, 97)]" by code_simp
  have b10: "int 2 = width (screen_globals 2 3) - col_x newline_state"
    using b8 by (simp add: screen_globals_def)
  from newline_handling [OF b1 b2 b3 b4 b5 b6 w32 w10 b10] b7
  have r: "eolseen (run utf8_libc opts_default (screen_globals 2 3) 2 newline_state) \<and>
      fp (run utf8_libc opts_default (screen_globals 2 3) 2 newline_state) = ''b'' \<and>
      painted (run utf8_libc opts_default (screen_globals 2 3) 2 newline_state) =
        painted newline_state @
          map (\<lambda>j. (row_y newline_state, col_x newline_state + int j, 32)) [0..<2]"
    by blast
  have l: "map (\<lambda>j. (0::int, 1 + int j, 32::int)) [0..<2] = [(0, 1, 32), (0, 2, 32)]"
    by (simp add: upt_rec)
  have pp: "painted (stray_newline_state\<lparr>carry := WEOF, fp := ''d''\<rparr>) =
      painted stray_newline_state"
    by (simp add: painted_def)
  from s r a7 a8 a9 b8 b9 l pp show ?thesis by simp
qed

subsection \<open>Renders that depart from the specification\<close>

text \<open>
  Claim C1 (the code departs from it). In cumulative mode the test of line 589 is
  \<^verbatim>\<open>oldc.attr & A_ATTRIBUTES\<close>: any attribute of the old cell, not only the standout of a
  highlight. With colours on, a cell written in bold is therefore highlighted by the next
  render although its character is the same and it was not highlighted before. On a screen
  of one cell and the output \<^verbatim>\<open>ESC [ 1 m A\<close> in every cycle, the first render paints \<^verbatim>\<open>A\<close>
  without highlight and leaves it bold on the screen, and the second render highlights it.
\<close>

theorem cumulative_highlights_bold_cell:
  "view (run utf8_libc opts_cumulative_color (screen_globals 1 1) 5
           (render_start (screen_globals 1 1) (CHR 0x1B # ''[1mA'') initscr)) =
     (Finished, [(0, 0, 65, False)]) \<and>
   mv_in_wch bold_window 0 0 = \<lparr>chars0 = 65, cattr = A_BOLD\<rparr> \<and>
   view (run utf8_libc opts_cumulative_color (cycle_end (screen_globals 1 1)) 5
           (render_start (cycle_end (screen_globals 1 1)) (CHR 0x1B # ''[1mA'') bold_window)) =
     (Finished, [(0, 0, 65, True)])"
  by code_simp

text \<open>
  Claim C5 (the code departs from it). A double-width character that meets the last column
  is carried to the next row by \<^verbatim>\<open>y++\<close> inside the inner loop, where \<^verbatim>\<open>y < height\<close> is not
  tested. On a screen of one row and two columns and the output \<^verbatim>\<open>a\<close> followed by the
  double-width U+3042, the loop moves to row 1 and paints the character there, below the
  last row 0.
\<close>

theorem layout_paints_below_grid:
  "height (screen_globals 1 2) = 1 \<and>
   view (run utf8_libc opts_default (screen_globals 1 2) 6
           (render_start (screen_globals 1 2) [CHR ''a'', CHR 0xE3, CHR 0x81, CHR 0x82] initscr)) =
     (Finished, [(0, 0, 97, False), (1, 0, 12354, False)])"
  by code_simp

text \<open>
  Claim C10, the part that does not hold. The input after a byte \<^verbatim>\<open>0xFF\<close> is decoded all the
  same: the call that reads \<^verbatim>\<open>0xFF\<close> leaves \<^verbatim>\<open>A\<close> in the stream, the next call returns it, and
  the render paints a blank for the first call and \<^verbatim>\<open>A\<close> for the second.
\<close>

theorem my_getwc_0xFF_counterexample:
  "my_getwc utf8_libc [CHR 0xFF, CHR ''A''] = (Eof, ''A'') \<and>
   my_getwc utf8_libc ''A'' = (Legal 65, []) \<and>
   view (run utf8_libc opts_default (screen_globals 1 3) 6
           (render_start (screen_globals 1 3) [CHR 0xFF, CHR ''A''] initscr)) =
     (Finished, [(0, 0, 32, False), (0, 1, 65, False), (0, 2, 32, False)])"
  by code_simp

end
